theory Spec2Isabelle
  imports Complex_Main "HOL-Library.AList"
begin

section \<open>Numbers, strings and thrown values\<close>

text \<open>
  A JavaScript \<open>number\<close> that holds an arbitrary value (a score, a duration, an average) is a
  \<open>real\<close>; counters that start at 0 and are only incremented are \<open>nat\<close>; the hop depth and
  \<open>maxRetries\<close> are \<open>int\<close> (the depth \<open>-1\<close> is the chain-summary sentinel, a negative
  \<open>maxRetries\<close> skips the retry loop). \<open>NaN\<close>, the infinities and the rounding of binary
  floating point are outside this model.
\<close>

text \<open>\<open>Math.round\<close>: the nearest integer, a tie going up (towards plus infinity).\<close>

definition Math_round :: "real \<Rightarrow> real" where
  "Math_round x = of_int \<lfloor>x + 1 / 2\<rfloor>"

text \<open>\<open>s.substring(0, n)\<close>.\<close>

definition substring0 :: "nat \<Rightarrow> string \<Rightarrow> string" where
  "substring0 n s = take n s"

text \<open>\<open>a || b\<close> on an optional string: \<open>undefined\<close> and the empty string are falsy.\<close>

definition or_else :: "string option \<Rightarrow> string \<Rightarrow> string" where
  "or_else a b = (case a of None \<Rightarrow> b | Some s \<Rightarrow> if s = [] then b else s)"

definition truthy :: "string option \<Rightarrow> bool" where
  "truthy a = (case a of None \<Rightarrow> False | Some s \<Rightarrow> s \<noteq> [])"

text \<open>Decimal rendering of the integers that are spliced into template strings.\<close>

definition digit :: "nat \<Rightarrow> char" where
  "digit d = ''0123456789'' ! d"

function show_nat :: "nat \<Rightarrow> string" where
  "show_nat n = (if n < 10 then [digit n] else show_nat (n div 10) @ [digit (n mod 10)])"
  by pat_completeness auto
termination
  by (relation "measure (\<lambda>n. n)") auto

declare show_nat.simps [simp del]

definition show_int :: "int \<Rightarrow> string" where
  "show_int i = (if i < 0 then CHR ''-'' # show_nat (nat (- i)) else show_nat (nat i))"

text \<open>
  What a \<open>catch (err)\<close> receives: an \<open>Error\<close> object with its message, or any other value.
  An asynchronous call either throws (rejects) or returns (resolves with) a value.
\<close>

datatype thrown = Error string | NotAnError

datatype 'a outcome = Throws thrown | Returns 'a

text \<open>\<open>err instanceof Error ? err.message : 'Unknown error'\<close>\<close>

definition error_text :: "thrown \<Rightarrow> string" where
  "error_text err = (case err of Error m \<Rightarrow> m | NotAnError \<Rightarrow> ''Unknown error'')"

section \<open>Data model of the orchestrator\<close>

datatype AgentName =
  freedom | watchdog | coach | simulator | auditor
  | vision | letter | debate | call_script | future_self

definition agent_text :: "AgentName \<Rightarrow> string" where
  "agent_text a = (case a of
     freedom \<Rightarrow> ''freedom'' | watchdog \<Rightarrow> ''watchdog'' | coach \<Rightarrow> ''coach''
   | simulator \<Rightarrow> ''simulator'' | auditor \<Rightarrow> ''auditor'' | vision \<Rightarrow> ''vision''
   | letter \<Rightarrow> ''letter'' | debate \<Rightarrow> ''debate'' | call_script \<Rightarrow> ''call-script''
   | future_self \<Rightarrow> ''future-self'')"

record AgentCallLog =
  log_id :: string
  log_agent :: AgentName
  log_timestamp :: string
  log_durationMs :: real
  success :: bool
  qualityScore :: real
  qualityReasoning :: string
  retryCount :: nat
  inputSummary :: string
  outputSummary :: string
  correctionApplied :: "string option"
  error :: "string option"

datatype HealthStatus = healthy | degraded | failing

record AgentHealth =
  agent :: AgentName
  totalCalls :: nat
  successRate :: real
  avgQualityScore :: real
  avgLatencyMs :: real
  lastCallAt :: "string option"
  lastError :: "string option"
  status :: HealthStatus
  recentCorrections :: "string list"

text \<open>
  \<open>agents\<close> is a \<open>Record<AgentName, AgentHealth>\<close> with an entry for each of the ten names,
  so it is a total function on \<open>AgentName\<close>. The field \<open>totalCalls\<close> of the state is
  \<open>state_totalCalls\<close> here, the health record keeping the name.
\<close>

record OrchestratorState =
  agents :: "AgentName \<Rightarrow> AgentHealth"
  state_totalCalls :: nat
  totalCorrections :: nat
  upSince :: string
  callLog :: "AgentCallLog list"

definition MAX_LOG_SIZE :: nat where
  "MAX_LOG_SIZE = 100"

definition AGENT_NAMES :: "AgentName list" where
  "AGENT_NAMES = [freedom, watchdog, coach, simulator, auditor,
                  vision, letter, debate, call_script, future_self]"

definition createEmptyHealth :: "AgentName \<Rightarrow> AgentHealth" where
  "createEmptyHealth a =
     \<lparr> agent = a, totalCalls = 0, successRate = 100, avgQualityScore = 0, avgLatencyMs = 0,
       lastCallAt = None, lastError = None, status = healthy, recentCorrections = [] \<rparr>"

text \<open>
  The module-level \<open>state\<close> at load time. \<open>Object.fromEntries\<close> over \<open>AGENT_NAMES\<close> gives
  an object with one property for each name of the list, and the record of a name is the
  value of its property. A name that the list left out would have no record; that the list
  leaves out none is a fact about \<open>AGENT_NAMES\<close> (\<open>every_agent_listed\<close> below), on which
  the cast to \<open>Record<AgentName, AgentHealth>\<close> rests.
\<close>

definition initial_state :: "string \<Rightarrow> OrchestratorState" where
  "initial_state started =
     \<lparr> agents = (\<lambda>a. the (map_of (map (\<lambda>n. (n, createEmptyHealth n)) AGENT_NAMES) a)),
       state_totalCalls = 0, totalCorrections = 0, upSince = started, callLog = [] \<rparr>"

section \<open>Data model of the checklist and of the event bus\<close>

datatype ItemStatus = pending | in_progress | completed | failed

text \<open>
  An item is mutated by \<open>Object.assign\<close>, which can store \<open>undefined\<close> in any of the
  properties that \<open>updateChecklistItem\<close> accepts: \<open>None\<close> is \<open>undefined\<close> (or, for the
  optional properties, absent, which reads the same).
\<close>

record ChecklistItem =
  item_id :: string
  task :: string
  description :: string
  assignedAgent :: AgentName
  item_status :: "ItemStatus option"
  progress :: "real option"
  result :: "string option"
  decision :: "string option"
  startedAt :: "string option"
  completedAt :: "string option"

text \<open>
  The argument of \<open>createChecklist\<close>: a \<open>ChecklistItem\<close> without \<open>id\<close>, \<open>status\<close> and
  \<open>progress\<close>.
\<close>

record NewItem =
  new_task :: string
  new_description :: string
  new_assignedAgent :: AgentName
  new_result :: "string option"
  new_decision :: "string option"
  new_startedAt :: "string option"
  new_completedAt :: "string option"

text \<open>
  The \<open>Partial<Pick<ChecklistItem, ...>>\<close> argument of \<open>updateChecklistItem\<close>: \<open>None\<close> is an
  absent property, \<open>Some v\<close> a property that is present and holds \<open>v\<close>, where \<open>v = None\<close>
  is a property that is present and holds \<open>undefined\<close> (the PATCH endpoint passes such
  properties for the fields that its request body leaves out).
\<close>

record ItemUpdate =
  upd_status :: "ItemStatus option option"
  upd_progress :: "real option option"
  upd_result :: "string option option"
  upd_decision :: "string option option"
  upd_startedAt :: "string option option"
  upd_completedAt :: "string option option"

text \<open>
  The fields that the PATCH endpoint reads from its request body (\<open>None\<close>: the body has no
  such field).
\<close>

record PatchBody =
  body_status :: "ItemStatus option"
  body_progress :: "real option"
  body_result :: "string option"
  body_decision :: "string option"

text \<open>
  \<open>checklists\<close> is a \<open>Map<string, ChecklistItem[]>\<close>: an association list with one entry
  per key, in insertion order (\<open>Map.set\<close> on an existing key keeps its place).
\<close>

type_synonym Checklists = "(string \<times> ChecklistItem list) list"

datatype BusEventType =
  vision_extracted | watchdog_matched | freedom_updated | letter_generated
  | call_script_generated | debate_verdict | coach_insight

text \<open>
  The payload is \<open>unknown\<close> to the bus. The model keeps what the code looks at: whether it is
  \<open>null\<close>/\<open>undefined\<close>, and the object that \<open>completeChain\<close> builds.
\<close>

datatype Payload =
  Nullish
  | Opaque string
  | ChainSummaryPayload nat real "AgentName list"

record BusEvent =
  ev_id :: string
  ev_type :: BusEventType
  source :: AgentName
  ev_chainId :: string
  depth :: int
  ev_timestamp :: string
  summary :: string
  payload :: Payload
  ev_durationMs :: "real option"
  triggeredBy :: "string option"

text \<open>The second argument of \<open>emit\<close>: \<open>Omit<BusEvent, 'id' | 'timestamp' | 'type'>\<close>.\<close>

record PartialEvent =
  pe_source :: AgentName
  pe_chainId :: string
  pe_depth :: int
  pe_summary :: string
  pe_payload :: Payload
  pe_durationMs :: "real option"
  pe_triggeredBy :: "string option"

datatype ChainStatus = running | chain_completed | chain_error

record ChainSummary =
  chainId :: string
  events :: "BusEvent list"
  totalAgents :: nat
  totalDurationMs :: real
  chain_startedAt :: string
  chain_completedAt :: "string option"
  chain_status :: ChainStatus

text \<open>
  A subscriber callback is a function object: \<open>client_ref\<close> is its identity (what the \<open>Set\<close>
  compares), \<open>client_call\<close> says whether a call with an event throws or returns. What a
  callback does to the bus by calling back into it is outside the model.
\<close>

record Client =
  client_ref :: nat
  client_call :: "BusEvent \<Rightarrow> unit outcome"

text \<open>
  The listeners that \<open>registerBusHandlers\<close> attaches with \<open>agentBus.on\<close>, as a closed type:
  the four downstream triggers and the checklist observer.
\<close>

datatype Handler =
  OnVisionExtracted | OnWatchdogMatched | OnDebateVerdict | OnFreedomUpdated | OnAnyEvent

record AgentBus =
  eventLog :: "BusEvent list"
  chains :: "(string \<times> ChainSummary) list"
  sseClients :: "Client list"
  listeners :: "(BusEventType \<times> Handler) list"

text \<open>
  The process: the two module-level variables of the orchestrator, the bus singleton, and
  three traces that record what was called:
  \<open>delivered\<close> (each call of a subscriber callback), \<open>dispatched\<close> (each call of a listener
  by the event emitter) and \<open>spawned\<close> (each downstream agent run that a trigger handler
  started; the run itself, an \<open>orchestrate\<close> call followed by \<open>emitAgentEvent\<close> at
  \<open>depth + 1\<close>, happens after the handler's first \<open>await\<close>).
\<close>

record World =
  state :: OrchestratorState
  checklists :: Checklists
  agentBus :: AgentBus
  delivered :: "(nat \<times> BusEvent) list"
  dispatched :: "(Handler \<times> BusEvent) list"
  spawned :: "(AgentName \<times> BusEvent) list"

text \<open>
  The readings of the clock and of the random generator during one synchronous call: all
  reads of the clock within the call give the same instant.
\<close>

record Clock =
  now :: int
  isoString :: string
  eventRandom :: string
  chainRandom :: string

definition MAX_CHAIN_DEPTH :: int where
  "MAX_CHAIN_DEPTH = 3"

definition MAX_EVENT_LOG :: nat where
  "MAX_EVENT_LOG = 200"

section \<open>The health registry\<close>

text \<open>\<open>push\<close> followed by one \<open>shift\<close> when the list has grown past the cap.\<close>

definition push_capped :: "nat \<Rightarrow> 'a \<Rightarrow> 'a list \<Rightarrow> 'a list" where
  "push_capped cap x xs = (let ys = xs @ [x] in if length ys > cap then tl ys else ys)"

text \<open>
  \<open>updateHealth\<close> mutates the health record of \<open>agentName\<close> in place, field by field in
  the order of the source (its parameter \<open>log\<close> is \<open>lg\<close> here). It reads
  \<open>state.callLog\<close> as it is when called.
\<close>

definition updateHealth :: "AgentName \<Rightarrow> AgentCallLog \<Rightarrow> OrchestratorState \<Rightarrow> OrchestratorState" where
  "updateHealth agentName lg st =
     (let health = agents st agentName;
          n = totalCalls health + 1;
          quality = (if n = 1 then qualityScore lg
                     else Math_round ((avgQualityScore health * (real n - 1) + qualityScore lg) / real n));
          latency = (if n = 1 then log_durationMs lg
                     else Math_round ((avgLatencyMs health * (real n - 1) + log_durationMs lg) / real n));
          successCount = length (filter (\<lambda>l. log_agent l = agentName \<and> success l) (callLog st))
                         + (if success lg then 1 else 0);
          rate = Math_round ((real successCount / real n) * 100);
          health' = health
            \<lparr> totalCalls := n,
              lastCallAt := Some (log_timestamp lg),
              avgQualityScore := quality,
              avgLatencyMs := latency,
              successRate := rate,
              status := (if rate < 50 \<or> quality < 40 then failing
                         else if rate < 80 \<or> quality < 60 then degraded
                         else healthy),
              lastError := (if \<not> success lg \<and> truthy (error lg) then error lg
                            else lastError health),
              recentCorrections :=
                (if truthy (correctionApplied lg)
                 then push_capped 5 (the (correctionApplied lg)) (recentCorrections health)
                 else recentCorrections health) \<rparr>
      in st \<lparr> agents := (agents st)(agentName := health') \<rparr>)"

text \<open>The three steps that both exits of \<open>orchestrate\<close> perform on the state.\<close>

definition record_call :: "AgentName \<Rightarrow> AgentCallLog \<Rightarrow> OrchestratorState \<Rightarrow> OrchestratorState" where
  "record_call agentName lg st =
     updateHealth agentName lg
       (st \<lparr> callLog := push_capped MAX_LOG_SIZE lg (callLog st),
             state_totalCalls := state_totalCalls st + 1 \<rparr>)"

section \<open>The checklist\<close>

definition getChecklist :: "string \<Rightarrow> Checklists \<Rightarrow> ChecklistItem list" where
  "getChecklist sessionId cl = (case map_of cl sessionId of None \<Rightarrow> [] | Some items \<Rightarrow> items)"

definition getChecklistSessions :: "Checklists \<Rightarrow> string list" where
  "getChecklistSessions cl = map fst cl"

definition createChecklist :: "Clock \<Rightarrow> string \<Rightarrow> NewItem list \<Rightarrow> Checklists \<Rightarrow> ChecklistItem list \<times> Checklists" where
  "createChecklist clock sessionId items cl =
     (let checklistItems =
            map (\<lambda>(i, item).
                   \<lparr> item_id = ''task_'' @ show_int (now clock) @ ''_'' @ show_nat i,
                     task = new_task item,
                     description = new_description item,
                     assignedAgent = new_assignedAgent item,
                     item_status = Some pending,
                     progress = Some 0,
                     result = new_result item,
                     decision = new_decision item,
                     startedAt = new_startedAt item,
                     completedAt = new_completedAt item \<rparr>)
                (enumerate 0 items)
      in (checklistItems, AList.update sessionId checklistItems cl))"

text \<open>
  \<open>Object.assign(item, update)\<close>: every property that the update has overwrites the item's,
  also when it holds \<open>undefined\<close>.
\<close>

definition assign :: "ItemUpdate \<Rightarrow> ChecklistItem \<Rightarrow> ChecklistItem" where
  "assign u item =
     item \<lparr> item_status := (case upd_status u of Some v \<Rightarrow> v | None \<Rightarrow> item_status item),
            progress := (case upd_progress u of Some v \<Rightarrow> v | None \<Rightarrow> progress item),
            result := (case upd_result u of Some v \<Rightarrow> v | None \<Rightarrow> result item),
            decision := (case upd_decision u of Some v \<Rightarrow> v | None \<Rightarrow> decision item),
            startedAt := (case upd_startedAt u of Some v \<Rightarrow> v | None \<Rightarrow> startedAt item),
            completedAt := (case upd_completedAt u of Some v \<Rightarrow> v | None \<Rightarrow> completedAt item) \<rparr>"

text \<open>
  The item that \<open>items.find(i => i.id === itemId)\<close> returns is mutated in place: in the
  list, the first item with that id changes.
\<close>

fun assign_first :: "string \<Rightarrow> ItemUpdate \<Rightarrow> ChecklistItem list \<Rightarrow> ChecklistItem list" where
  "assign_first itemId u [] = []"
| "assign_first itemId u (i # items) =
     (if item_id i = itemId then assign u i # items else i # assign_first itemId u items)"

definition updateChecklistItem :: "string \<Rightarrow> string \<Rightarrow> ItemUpdate \<Rightarrow> Checklists \<Rightarrow> ChecklistItem option \<times> Checklists" where
  "updateChecklistItem sessionId itemId u cl =
     (case map_of cl sessionId of
        None \<Rightarrow> (None, cl)
      | Some items \<Rightarrow>
          (case find (\<lambda>i. item_id i = itemId) items of
             None \<Rightarrow> (None, cl)
           | Some item \<Rightarrow> (Some (assign u item), AList.update sessionId (assign_first itemId u items) cl)))"

text \<open>
  The handler of \<open>PATCH /checklist/:sessionId/:itemId\<close>: the four fields of the body are
  passed on as they are, present also when the body lacks them; \<open>startedAt\<close> and
  \<open>completedAt\<close> are added for the statuses \<open>in_progress\<close> and \<open>completed\<close>.
\<close>

definition patchChecklistItem :: "Clock \<Rightarrow> string \<Rightarrow> string \<Rightarrow> PatchBody \<Rightarrow> Checklists \<Rightarrow> ChecklistItem option \<times> Checklists" where
  "patchChecklistItem clock sessionId itemId body cl =
     updateChecklistItem sessionId itemId
       \<lparr> upd_status = Some (body_status body),
         upd_progress = Some (body_progress body),
         upd_result = Some (body_result body),
         upd_decision = Some (body_decision body),
         upd_startedAt = (if body_status body = Some in_progress
                          then Some (Some (isoString clock)) else None),
         upd_completedAt = (if body_status body = Some completed
                            then Some (Some (isoString clock)) else None) \<rparr>
       cl"

text \<open>
  The loop \<open>for (const item of items) if (cond(item)) updateChecklistItem(sid, item.id, u)\<close>,
  which both \<open>orchestrate\<close> and the checklist observer run: the items are visited by
  position, and each test reads the item as the earlier updates have left it.
\<close>

fun sweep_items :: "(ChecklistItem \<Rightarrow> bool) \<Rightarrow> ItemUpdate \<Rightarrow> string \<Rightarrow> nat list \<Rightarrow> Checklists \<Rightarrow> Checklists" where
  "sweep_items cond u sid [] cl = cl"
| "sweep_items cond u sid (j # js) cl =
     (let item = getChecklist sid cl ! j
      in sweep_items cond u sid js
           (if cond item then snd (updateChecklistItem sid (item_id item) u cl) else cl))"

text \<open>The loop \<open>for (const sid of getChecklistSessions())\<close> around it.\<close>

fun sweep_sessions :: "(ChecklistItem \<Rightarrow> bool) \<Rightarrow> ItemUpdate \<Rightarrow> string list \<Rightarrow> Checklists \<Rightarrow> Checklists" where
  "sweep_sessions cond u [] cl = cl"
| "sweep_sessions cond u (sid # sids) cl =
     sweep_sessions cond u sids
       (sweep_items cond u sid [0 ..< length (getChecklist sid cl)] cl)"

definition sweep :: "(ChecklistItem \<Rightarrow> bool) \<Rightarrow> ItemUpdate \<Rightarrow> Checklists \<Rightarrow> Checklists" where
  "sweep cond u cl = sweep_sessions cond u (getChecklistSessions cl) cl"

definition no_update :: ItemUpdate where
  "no_update = \<lparr> upd_status = None, upd_progress = None, upd_result = None,
                 upd_decision = None, upd_startedAt = None, upd_completedAt = None \<rparr>"

section \<open>The call orchestrator\<close>

record QualityEvaluation =
  score :: real
  reasoning :: string
  hasCriticalIssue :: bool
  suggestedFix :: "string option"

text \<open>The judge model's \<open>generateContent\<close> call throws, or returns a text.\<close>

datatype JudgeReply = JudgeThrows | JudgeText string

text \<open>
  What \<open>parseJSON\<close> makes of a reply: both \<open>JSON.parse\<close> attempts throw and it returns
  its fallback; or it returns the parsed value unchecked, which can be \<open>null\<close>. A parsed
  value other than \<open>null\<close> is taken with the fields of \<open>QualityEvaluation\<close> (an absent
  \<open>hasCriticalIssue\<close> reads as false).
\<close>

datatype Parsed = ParseFails | ParsedNull | ParsedValue QualityEvaluation

text \<open>
  What a call of \<open>orchestrate\<close> takes from outside: the generated call id, the clock
  readings, \<open>JSON.stringify\<close> on a result (it throws, or returns \<open>undefined\<close>, here
  \<open>None\<close>, or a string), the judge model's reply to the prompt of each attempt, the parse
  of a reply by \<open>parseJSON\<close>, and the message of the \<open>TypeError\<close> that the engine raises
  when the named property is read on \<open>null\<close> or \<open>undefined\<close>.
\<close>

record 'r Environment =
  generateId :: string
  startTime :: int
  startedStamp :: string
  finishTime :: "nat \<Rightarrow> int"
  failTime :: int
  logStamp :: string
  JSON_stringify :: "'r \<Rightarrow> string option outcome"
  judge :: "nat \<Rightarrow> AgentName \<Rightarrow> string \<Rightarrow> string \<Rightarrow> JudgeReply"
  parsed :: "string \<Rightarrow> Parsed"
  typeErrorMessage :: "string \<Rightarrow> string"

text \<open>
  The options of \<open>orchestrate\<close>. A unit of work is effectful, so \<open>agentFn\<close> and \<open>retryFn\<close>
  are given the number of the attempt that invokes them and answer with what that
  invocation does.
\<close>

record 'r Options =
  maxRetries :: "int option"
  retryFn :: "(string \<Rightarrow> nat \<Rightarrow> 'r outcome) option"
  outputToString :: "('r \<Rightarrow> string outcome) option"
  skipQualityCheck :: bool

text \<open>
  \<open>evaluateQuality\<close> never throws: a failure of the judge call gives the score 65, a
  reply that cannot be parsed the fallback with the score 70. It resolves with what
  \<open>parseJSON\<close> returns, so with \<open>null\<close> (here \<open>None\<close>) when the reply parses to \<open>null\<close>.
\<close>

definition evaluateQuality :: "'r Environment \<Rightarrow> nat \<Rightarrow> AgentName \<Rightarrow> string \<Rightarrow> string \<Rightarrow> QualityEvaluation option" where
  "evaluateQuality env attempt agentName input output =
     (case judge env attempt agentName (substring0 500 input) (substring0 1000 output) of
        JudgeText text \<Rightarrow>
          (case parsed env text of
             ParsedValue q \<Rightarrow> Some q
           | ParsedNull \<Rightarrow> None
           | ParseFails \<Rightarrow>
               Some \<lparr> score = 70, reasoning = ''Evaluation completed with default score'',
                      hasCriticalIssue = False, suggestedFix = None \<rparr>)
      | JudgeThrows \<Rightarrow>
          Some \<lparr> score = 65, reasoning = ''Quality evaluation skipped (evaluator error)'',
                 hasCriticalIssue = False, suggestedFix = None \<rparr>)"

text \<open>
  The text form of a result: \<open>options.outputToString(result)\<close> when a projector was given,
  \<open>JSON.stringify(result).substring(0, 500)\<close> otherwise. Either can throw; on a result for
  which \<open>JSON.stringify\<close> returns \<open>undefined\<close>, the read of \<open>substring\<close> throws.
\<close>

definition projectOutput :: "'r Environment \<Rightarrow> 'r Options \<Rightarrow> 'r \<Rightarrow> string outcome" where
  "projectOutput env opts res =
     (case outputToString opts of
        Some f \<Rightarrow> f res
      | None \<Rightarrow> (case JSON_stringify env res of
                   Throws err \<Rightarrow> Throws err
                 | Returns None \<Rightarrow> Throws (Error (typeErrorMessage env ''substring''))
                 | Returns (Some s) \<Rightarrow> Returns (substring0 500 s)))"

text \<open>
  The quality of an attempt: the constant of a skipped check, or what \<open>evaluateQuality\<close>
  resolves with.
\<close>

definition attemptQuality :: "'r Environment \<Rightarrow> 'r Options \<Rightarrow> nat \<Rightarrow> AgentName \<Rightarrow> string \<Rightarrow> string \<Rightarrow> QualityEvaluation option" where
  "attemptQuality env opts attempt agentName inputSum outputStr =
     (if \<not> skipQualityCheck opts
      then evaluateQuality env attempt agentName inputSum outputStr
      else Some \<lparr> score = 80, reasoning = ''Skipped'', hasCriticalIssue = False,
                  suggestedFix = None \<rparr>)"

record LoopVars =
  lv_lastError :: "string option"
  lv_retryCount :: nat
  lv_correctionApplied :: "string option"

text \<open>
  The body of the \<open>try\<close> block up to the read of \<open>quality.hasCriticalIssue\<close>, which
  throws when the quality is \<open>null\<close>.
\<close>

datatype 'r Attempt = Caught thrown | Evaluated 'r real string QualityEvaluation

definition try_attempt :: "'r Environment \<Rightarrow> AgentName \<Rightarrow> string \<Rightarrow> (nat \<Rightarrow> 'r outcome) \<Rightarrow> 'r Options \<Rightarrow> int \<Rightarrow> LoopVars \<Rightarrow> 'r Attempt" where
  "try_attempt env agentName inputSum agentFn opts attempt vars =
     (case (if attempt = 0 then agentFn 0
            else case retryFn opts of
                   Some rf \<Rightarrow> rf (or_else (lv_correctionApplied vars) ''Retry with improved parameters'') (nat attempt)
                 | None \<Rightarrow> agentFn (nat attempt)) of
        Throws err \<Rightarrow> Caught err
      | Returns res \<Rightarrow>
          (let durationMs = real_of_int (finishTime env (nat attempt) - startTime env)
           in case projectOutput env opts res of
                Throws err \<Rightarrow> Caught err
              | Returns outputStr \<Rightarrow>
                  (case attemptQuality env opts (nat attempt) agentName inputSum outputStr of
                     None \<Rightarrow> Caught (Error (typeErrorMessage env ''hasCriticalIssue''))
                   | Some quality \<Rightarrow> Evaluated res durationMs outputStr quality)))"

text \<open>The two \<open>AgentCallLog\<close> objects that \<open>orchestrate\<close> builds.\<close>

definition success_log :: "'r Environment \<Rightarrow> AgentName \<Rightarrow> string \<Rightarrow> LoopVars \<Rightarrow> real \<Rightarrow> string \<Rightarrow> QualityEvaluation \<Rightarrow> AgentCallLog" where
  "success_log env agentName inputSum vars durationMs outputStr quality =
     \<lparr> log_id = generateId env,
       log_agent = agentName,
       log_timestamp = logStamp env,
       log_durationMs = durationMs,
       success = True,
       qualityScore = score quality,
       qualityReasoning = reasoning quality,
       retryCount = lv_retryCount vars,
       inputSummary = substring0 200 inputSum,
       outputSummary = substring0 200 outputStr,
       correctionApplied = lv_correctionApplied vars,
       error = None \<rparr>"

definition failure_log :: "'r Environment \<Rightarrow> AgentName \<Rightarrow> string \<Rightarrow> LoopVars \<Rightarrow> int \<Rightarrow> AgentCallLog" where
  "failure_log env agentName inputSum vars maxR =
     \<lparr> log_id = generateId env,
       log_agent = agentName,
       log_timestamp = logStamp env,
       log_durationMs = real_of_int (failTime env - startTime env),
       success = False,
       qualityScore = 0,
       qualityReasoning = ''All '' @ show_int (maxR + 1) @ '' attempts failed'',
       retryCount = lv_retryCount vars,
       inputSummary = substring0 200 inputSum,
       outputSummary = [],
       correctionApplied = lv_correctionApplied vars,
       error = lv_lastError vars \<rparr>"

text \<open>
  The loop \<open>for (let attempt = 0; attempt <= maxRetries; attempt++)\<close>. It leaves either
  through the \<open>return\<close> in the \<open>try\<close> block, or by running out of attempts.
\<close>

datatype 'r LoopExit =
  Returned 'r AgentCallLog OrchestratorState
  | Exhausted LoopVars OrchestratorState

function attempts :: "'r Environment \<Rightarrow> AgentName \<Rightarrow> string \<Rightarrow> (nat \<Rightarrow> 'r outcome) \<Rightarrow> 'r Options \<Rightarrow> int \<Rightarrow> int \<Rightarrow> LoopVars \<Rightarrow> OrchestratorState \<Rightarrow> 'r LoopExit" where
  "attempts env agentName inputSum agentFn opts maxR attempt vars st =
     (if attempt \<le> maxR then
        (case try_attempt env agentName inputSum agentFn opts attempt vars of
           Evaluated res durationMs outputStr quality \<Rightarrow>
             (if hasCriticalIssue quality \<and> attempt < maxR \<and> retryFn opts \<noteq> None then
                attempts env agentName inputSum agentFn opts maxR (attempt + 1)
                  (vars \<lparr> lv_correctionApplied :=
                             Some (or_else (suggestedFix quality) ''Retry with stricter validation''),
                           lv_retryCount := lv_retryCount vars + 1 \<rparr>)
                  (st \<lparr> totalCorrections := totalCorrections st + 1 \<rparr>)
              else
                (let lg = success_log env agentName inputSum vars durationMs outputStr quality
                 in Returned res lg (record_call agentName lg st)))
         | Caught err \<Rightarrow>
             (let lastError = error_text err
              in if attempt < maxR then
                   attempts env agentName inputSum agentFn opts maxR (attempt + 1)
                     (vars \<lparr> lv_lastError := Some lastError,
                              lv_retryCount := lv_retryCount vars + 1,
                              lv_correctionApplied := Some (''Auto-retry after error: '' @ lastError) \<rparr>)
                     (st \<lparr> totalCorrections := totalCorrections st + 1 \<rparr>)
                 else
                   attempts env agentName inputSum agentFn opts maxR (attempt + 1)
                     (vars \<lparr> lv_lastError := Some lastError \<rparr>) st))
      else Exhausted vars st)"
  by pat_completeness auto
termination
  by (relation "measure (\<lambda>(env, agentName, inputSum, agentFn, opts, maxR, attempt, vars, st).
                           nat (maxR + 1 - attempt))") auto

declare attempts.simps [simp del]

text \<open>
  \<open>orchestrate\<close>: \<open>Inr (result, log)\<close> is the resolved promise, \<open>Inl message\<close> the
  \<open>Error\<close> thrown after the last attempt. The calls it awaits are answered by the
  environment, so one call is one step of the state here.
\<close>

definition orchestrate :: "'r Environment \<Rightarrow> AgentName \<Rightarrow> string \<Rightarrow> (nat \<Rightarrow> 'r outcome) \<Rightarrow> 'r Options \<Rightarrow> World \<Rightarrow> (string + 'r \<times> AgentCallLog) \<times> World" where
  "orchestrate env agentName inputSum agentFn opts w =
     (let maxR = (case maxRetries opts of Some m \<Rightarrow> m | None \<Rightarrow> 1);
          cl = sweep (\<lambda>item. assignedAgent item = agentName \<and> item_status item = Some pending)
                 (no_update \<lparr> upd_status := Some (Some in_progress), upd_progress := Some (Some 30),
                              upd_startedAt := Some (Some (startedStamp env)) \<rparr>)
                 (checklists w)
      in case attempts env agentName inputSum agentFn opts maxR 0
                \<lparr> lv_lastError = None, lv_retryCount = 0, lv_correctionApplied = None \<rparr> (state w) of
           Returned res lg st \<Rightarrow> (Inr (res, lg), w \<lparr> state := st, checklists := cl \<rparr>)
         | Exhausted vars st \<Rightarrow>
             (let lastErrorText = (case lv_lastError vars of None \<Rightarrow> ''undefined'' | Some e \<Rightarrow> e);
                  lg = failure_log env agentName inputSum vars maxR
              in (Inl (''[Orchestrator] '' @ agent_text agentName @ '' failed after ''
                        @ show_nat (lv_retryCount vars + 1) @ '' attempts: '' @ lastErrorText),
                  w \<lparr> state := record_call agentName lg st, checklists := cl \<rparr>)))"

subsection \<open>State accessors\<close>

definition getOrchestratorState :: "World \<Rightarrow> OrchestratorState" where
  "getOrchestratorState w = (state w) \<lparr> callLog := rev (callLog (state w)) \<rparr>"

definition getAgentHealthMap :: "World \<Rightarrow> AgentName \<Rightarrow> AgentHealth" where
  "getAgentHealthMap w = agents (state w)"

text \<open>
  The log that a call of \<open>orchestrate\<close> has written is the last entry of the call log
  after it (the failing exit does not hand it to the caller).
\<close>

definition orchestrate_log :: "'r Environment \<Rightarrow> AgentName \<Rightarrow> string \<Rightarrow> (nat \<Rightarrow> 'r outcome) \<Rightarrow> 'r Options \<Rightarrow> World \<Rightarrow> AgentCallLog" where
  "orchestrate_log env agentName inputSum agentFn opts w =
     last (callLog (state (snd (orchestrate env agentName inputSum agentFn opts w))))"

section \<open>The event bus\<close>

text \<open>
  \<open>x.toFixed(1)\<close>: the sign, then the nearest number of tenths (the larger one at a tie).
  The exponent notation of numbers from \<open>1e21\<close> on is not modelled.
\<close>

definition toFixed1 :: "real \<Rightarrow> string" where
  "toFixed1 x =
     (let n = nat \<lfloor>\<bar>x\<bar> * 10 + 1 / 2\<rfloor>
      in (if x < 0 then ''-'' else []) @ show_nat (n div 10) @ ''.'' @ show_nat (n mod 10))"

definition trackChain :: "BusEvent \<Rightarrow> AgentBus \<Rightarrow> AgentBus" where
  "trackChain event b =
     (let chain = (case map_of (chains b) (ev_chainId event) of
                     Some c \<Rightarrow> c
                   | None \<Rightarrow> \<lparr> chainId = ev_chainId event, events = [], totalAgents = 0,
                                totalDurationMs = 0, chain_startedAt = ev_timestamp event,
                                chain_completedAt = None, chain_status = running \<rparr>);
          evs = events chain @ [event];
          chain' = chain \<lparr> events := evs,
                           totalAgents := length (remdups (map source evs)),
                           totalDurationMs := totalDurationMs chain
                             + (case ev_durationMs event of Some d \<Rightarrow> d | None \<Rightarrow> 0) \<rparr>
      in b \<lparr> chains := AList.update (ev_chainId event) chain' (chains b) \<rparr>)"

text \<open>
  \<open>try { client(event); } catch { }\<close>: the callback is called; whether it returns or throws,
  the bus goes on unchanged.
\<close>

definition call_client :: "BusEvent \<Rightarrow> World \<Rightarrow> Client \<Rightarrow> World" where
  "call_client event w client =
     (case client_call client event of
        Returns u \<Rightarrow> w \<lparr> delivered := delivered w @ [(client_ref client, event)] \<rparr>
      | Throws err \<Rightarrow> w \<lparr> delivered := delivered w @ [(client_ref client, event)] \<rparr>)"

text \<open>\<open>for (const client of this.sseClients)\<close>, in insertion order.\<close>

definition broadcast :: "BusEvent \<Rightarrow> World \<Rightarrow> World" where
  "broadcast event w = foldl (call_client event) w (sseClients (agentBus w))"

text \<open>The event that \<open>completeChain\<close> builds from the chain: \<open>depth = -1\<close> marks it.\<close>

definition chainSummaryEvent :: "Clock \<Rightarrow> string \<Rightarrow> ChainSummary \<Rightarrow> BusEvent" where
  "chainSummaryEvent clock cid chain =
     \<lparr> ev_id = ''evt_chain_'' @ show_int (now clock),
       ev_type = freedom_updated,
       source = freedom,
       ev_chainId = cid,
       depth = - 1,
       ev_timestamp = isoString clock,
       summary = ''Chain complete: '' @ show_nat (totalAgents chain) @ '' agents, ''
                 @ toFixed1 (totalDurationMs chain / 1000) @ ''s'',
       payload = ChainSummaryPayload (totalAgents chain) (totalDurationMs chain)
                   (map source (events chain)),
       ev_durationMs = None,
       triggeredBy = None \<rparr>"

definition completeChain :: "Clock \<Rightarrow> string \<Rightarrow> World \<Rightarrow> World" where
  "completeChain clock cid w =
     (case map_of (chains (agentBus w)) cid of
        None \<Rightarrow> w
      | Some chain \<Rightarrow>
          (let chain' = chain \<lparr> chain_status := chain_completed,
                                chain_completedAt := Some (isoString clock) \<rparr>
           in broadcast (chainSummaryEvent clock cid chain')
                (w \<lparr> agentBus := (agentBus w) \<lparr> chains := AList.update cid chain' (chains (agentBus w)) \<rparr> \<rparr>)))"

definition newChainId :: "Clock \<Rightarrow> string" where
  "newChainId clock = ''chain_'' @ show_int (now clock) @ ''_'' @ chainRandom clock"

text \<open>
  \<open>subscribe\<close> adds the callback to the set (a callback already in it is not added again);
  \<open>unsubscribe\<close> is the function that \<open>subscribe\<close> returns.
\<close>

definition subscribe :: "Client \<Rightarrow> World \<Rightarrow> World" where
  "subscribe callback w =
     (if client_ref callback \<in> set (map client_ref (sseClients (agentBus w))) then w
      else w \<lparr> agentBus := (agentBus w) \<lparr> sseClients := sseClients (agentBus w) @ [callback] \<rparr> \<rparr>)"

definition unsubscribe :: "Client \<Rightarrow> World \<Rightarrow> World" where
  "unsubscribe callback w =
     w \<lparr> agentBus := (agentBus w)
           \<lparr> sseClients := filter (\<lambda>c. client_ref c \<noteq> client_ref callback) (sseClients (agentBus w)) \<rparr> \<rparr>"

subsection \<open>The listeners\<close>

text \<open>The table \<open>AGENT_TO_CHECKLIST\<close>; a source that is not a key gives \<open>undefined\<close>.\<close>

definition AGENT_TO_CHECKLIST :: "AgentName \<Rightarrow> AgentName option" where
  "AGENT_TO_CHECKLIST src =
     (if src \<in> set [vision, watchdog, debate, letter, call_script, freedom, coach]
      then Some src else None)"

text \<open>
  One listener called with an event: its synchronous part. The three triggers that run an
  agent return at their depth guard or start their run (\<open>OnDebateVerdict\<close> reads a property
  of the payload first, which throws inside the asynchronous function when the payload is
  \<open>null\<close> or \<open>undefined\<close>); \<open>OnFreedomUpdated\<close> completes the chain; \<open>OnAnyEvent\<close> is the
  checklist observer.
\<close>

definition run_handler :: "Clock \<Rightarrow> BusEvent \<Rightarrow> World \<Rightarrow> Handler \<Rightarrow> World" where
  "run_handler clock event w0 h =
     (let w = w0 \<lparr> dispatched := dispatched w0 @ [(h, event)] \<rparr>
      in case h of
           OnVisionExtracted \<Rightarrow>
             (if depth event \<ge> 3 then w else w \<lparr> spawned := spawned w @ [(watchdog, event)] \<rparr>)
         | OnWatchdogMatched \<Rightarrow>
             (if depth event \<ge> 3 then w else w \<lparr> spawned := spawned w @ [(freedom, event)] \<rparr>)
         | OnDebateVerdict \<Rightarrow>
             (if depth event \<ge> 3 then w
              else if payload event = Nullish then w
              else w \<lparr> spawned := spawned w @ [(freedom, event)] \<rparr>)
         | OnFreedomUpdated \<Rightarrow>
             (if depth event \<ge> 3 then w else completeChain clock (ev_chainId event) w)
         | OnAnyEvent \<Rightarrow>
             (case AGENT_TO_CHECKLIST (source event) of
                None \<Rightarrow> w
              | Some agentName \<Rightarrow>
                  w \<lparr> checklists :=
                        sweep (\<lambda>item. assignedAgent item = agentName \<and> item_status item \<noteq> Some completed)
                          (no_update \<lparr> upd_status := Some (Some completed),
                                       upd_progress := Some (Some 100),
                                       upd_result := Some (Some (summary event)),
                                       upd_completedAt := Some (Some (isoString clock)) \<rparr>)
                          (checklists w) \<rparr>))"

text \<open>
  \<open>EventEmitter.emit\<close>: the listeners of the type are called in the order of their
  registration; the result says whether there was one.
\<close>

definition super_emit :: "Clock \<Rightarrow> BusEventType \<Rightarrow> BusEvent \<Rightarrow> World \<Rightarrow> bool \<times> World" where
  "super_emit clock type event w =
     (let hs = map snd (filter (\<lambda>(t, h). t = type) (listeners (agentBus w)))
      in (hs \<noteq> [], foldl (run_handler clock event) w hs))"

text \<open>The event completed with its id, its type and its timestamp.\<close>

definition fullEvent :: "Clock \<Rightarrow> BusEventType \<Rightarrow> PartialEvent \<Rightarrow> BusEvent" where
  "fullEvent clock type event =
     \<lparr> ev_id = ''evt_'' @ show_int (now clock) @ ''_'' @ eventRandom clock,
       ev_type = type,
       source = pe_source event,
       ev_chainId = pe_chainId event,
       depth = pe_depth event,
       ev_timestamp = isoString clock,
       summary = pe_summary event,
       payload = pe_payload event,
       ev_durationMs = pe_durationMs event,
       triggeredBy = pe_triggeredBy event \<rparr>"

definition emit :: "Clock \<Rightarrow> BusEventType \<Rightarrow> PartialEvent \<Rightarrow> World \<Rightarrow> bool \<times> World" where
  "emit clock type event w =
     (if pe_depth event > MAX_CHAIN_DEPTH then (False, w)
      else
        (let b = agentBus w;
             b1 = b \<lparr> eventLog := push_capped MAX_EVENT_LOG (fullEvent clock type event) (eventLog b) \<rparr>;
             b2 = trackChain (fullEvent clock type event) b1
         in super_emit clock type (fullEvent clock type event)
              (broadcast (fullEvent clock type event) (w \<lparr> agentBus := b2 \<rparr>))))"

definition emitAgentEvent :: "Clock \<Rightarrow> BusEventType \<Rightarrow> AgentName \<Rightarrow> string \<Rightarrow> Payload \<Rightarrow> string option \<Rightarrow> int option \<Rightarrow> string option \<Rightarrow> real option \<Rightarrow> World \<Rightarrow> string \<times> World" where
  "emitAgentEvent clock eventType src text pl chain dpth trigger duration w =
     (let cid = or_else chain (newChainId clock)
      in (cid, snd (emit clock eventType
                      \<lparr> pe_source = src, pe_chainId = cid,
                        pe_depth = (case dpth of Some d \<Rightarrow> d | None \<Rightarrow> 0),
                        pe_summary = text, pe_payload = pl,
                        pe_durationMs = duration, pe_triggeredBy = trigger \<rparr> w)))"

definition registerBusHandlers :: "World \<Rightarrow> World" where
  "registerBusHandlers w =
     w \<lparr> agentBus := (agentBus w)
           \<lparr> listeners := listeners (agentBus w)
               @ [(vision_extracted, OnVisionExtracted), (watchdog_matched, OnWatchdogMatched),
                  (debate_verdict, OnDebateVerdict), (freedom_updated, OnFreedomUpdated)]
               @ map (\<lambda>t. (t, OnAnyEvent))
                   [vision_extracted, watchdog_matched, debate_verdict, letter_generated,
                    call_script_generated, freedom_updated, coach_insight] \<rparr> \<rparr>"

text \<open>The process after the modules are loaded.\<close>

definition loaded :: "string \<Rightarrow> World" where
  "loaded started =
     registerBusHandlers
       \<lparr> state = initial_state started, checklists = [],
         agentBus = \<lparr> eventLog = [], chains = [], sseClients = [], listeners = [] \<rparr>,
         delivered = [], dispatched = [], spawned = [] \<rparr>"

section \<open>Runs of the process\<close>

text \<open>
  The calls that reach the process from outside or from the continuation of a trigger
  handler, one after the other on the single thread.
\<close>

datatype 'r Op =
  Orchestrate "'r Environment" AgentName string "nat \<Rightarrow> 'r outcome" "'r Options"
  | Emit Clock BusEventType PartialEvent
  | CompleteChain Clock string
  | Subscribe Client
  | Unsubscribe Client
  | CreateChecklist Clock string "NewItem list"
  | UpdateChecklistItem string string ItemUpdate
  | PatchChecklistItem Clock string string PatchBody

fun step :: "'r Op \<Rightarrow> World \<Rightarrow> World" where
  "step (Orchestrate env agentName inputSum agentFn opts) w =
     snd (orchestrate env agentName inputSum agentFn opts w)"
| "step (Emit clock type event) w = snd (emit clock type event w)"
| "step (CompleteChain clock cid) w = completeChain clock cid w"
| "step (Subscribe callback) w = subscribe callback w"
| "step (Unsubscribe callback) w = unsubscribe callback w"
| "step (CreateChecklist clock sessionId items) w =
     w \<lparr> checklists := snd (createChecklist clock sessionId items (checklists w)) \<rparr>"
| "step (UpdateChecklistItem sessionId itemId u) w =
     w \<lparr> checklists := snd (updateChecklistItem sessionId itemId u (checklists w)) \<rparr>"
| "step (PatchChecklistItem clock sessionId itemId body) w =
     w \<lparr> checklists := snd (patchChecklistItem clock sessionId itemId body (checklists w)) \<rparr>"

fun run :: "'r Op list \<Rightarrow> World \<Rightarrow> World" where
  "run [] w = w"
| "run (op # ops) w = run ops (step op w)"

text \<open>Whether a call is an \<open>orchestrate\<close> call for the agent.\<close>

fun orchestrates :: "AgentName \<Rightarrow> 'r Op \<Rightarrow> bool" where
  "orchestrates a (Orchestrate env agentName inputSum agentFn opts) = (agentName = a)"
| "orchestrates a (Emit clock type event) = False"
| "orchestrates a (CompleteChain clock cid) = False"
| "orchestrates a (Subscribe callback) = False"
| "orchestrates a (Unsubscribe callback) = False"
| "orchestrates a (CreateChecklist clock sessionId items) = False"
| "orchestrates a (UpdateChecklistItem sessionId itemId u) = False"
| "orchestrates a (PatchChecklistItem clock sessionId itemId body) = False"


section \<open>Sequences of bus events\<close>

text \<open>
  The representation of the \<open>Map\<close> of checklists is sound when no key occurs twice; and
  within a checklist no two items share an id (\<open>createChecklist\<close> numbers them).
\<close>

definition well_keyed :: "Checklists \<Rightarrow> bool" where
  "well_keyed cl \<longleftrightarrow>
     distinct (map fst cl) \<and> (\<forall>items \<in> set (map snd cl). distinct (map item_id items))"

text \<open>Calls of \<open>emit\<close> one after the other.\<close>

fun emit_all :: "(Clock \<times> BusEventType \<times> PartialEvent) list \<Rightarrow> World \<Rightarrow> World" where
  "emit_all [] w = w"
| "emit_all ((clock, type, event) # es) w = emit_all es (snd (emit clock type event w))"

text \<open>
  The first of them whose source is the agent, among those of depth at most 3 (the bus
  drops an event that is deeper).
\<close>

fun first_from :: "AgentName \<Rightarrow> (Clock \<times> BusEventType \<times> PartialEvent) list \<Rightarrow> (Clock \<times> PartialEvent) option" where
  "first_from a [] = None"
| "first_from a ((clock, type, event) # es) =
     (if pe_depth event \<le> 3 \<and> pe_source event = a then Some (clock, event)
      else first_from a es)"

text \<open>An item as the checklist observer leaves it when it completes it on an event.\<close>

definition completed_by :: "Clock \<Rightarrow> PartialEvent \<Rightarrow> ChecklistItem \<Rightarrow> ChecklistItem" where
  "completed_by clock event item =
     item \<lparr> item_status := Some completed, progress := Some 100,
            result := Some (pe_summary event), completedAt := Some (isoString clock) \<rparr>"

text \<open>
  One visit of the loop over the items, as a function on the item; and what the checklist
  observer does to one item on an accepted event whose source is in its table.
\<close>

definition visit :: "(ChecklistItem \<Rightarrow> bool) \<Rightarrow> ItemUpdate \<Rightarrow> ChecklistItem \<Rightarrow> ChecklistItem" where
  "visit cond u i = (if cond i then assign u i else i)"

definition observed :: "Clock \<Rightarrow> PartialEvent \<Rightarrow> ChecklistItem \<Rightarrow> ChecklistItem" where
  "observed clock event item =
     (if assignedAgent item = pe_source event \<and> item_status item \<noteq> Some completed
      then completed_by clock event item else item)"

section \<open>Averages\<close>




section \<open>Example inputs\<close>

text \<open>
  Results are given by their JSON text, \<open>None\<close> being a result that is \<open>undefined\<close>:
  \<open>JSON.stringify(undefined)\<close> is \<open>undefined\<close>.
\<close>

definition stringify_example :: "string option \<Rightarrow> string option outcome" where
  "stringify_example res = Returns res"

text \<open>
  The judge's reply with a score: the JSON text of an object with the properties \<open>score\<close>,
  \<open>reasoning\<close> and \<open>hasCriticalIssue\<close>. \<open>parseJSON\<close> returns the object of such a
  text, and \<open>null\<close> for the text \<open>null\<close>.
\<close>

definition quoted :: "string \<Rightarrow> string" where
  "quoted s = [CHR 0x22] @ s @ [CHR 0x22]"

definition judge_text :: "nat \<Rightarrow> string" where
  "judge_text n =
     ''{'' @ quoted ''score'' @ '':'' @ show_nat n @ '','' @ quoted ''reasoning'' @ '':''
     @ quoted ''fine'' @ '','' @ quoted ''hasCriticalIssue'' @ '':false}''"

definition parse_example :: "string \<Rightarrow> Parsed" where
  "parse_example text =
     (if text = judge_text 80 then ParsedValue \<lparr> score = 80, reasoning = ''fine'',
                               hasCriticalIssue = False, suggestedFix = None \<rparr>
      else if text = judge_text 81 then ParsedValue \<lparr> score = 81, reasoning = ''fine'',
                               hasCriticalIssue = False, suggestedFix = None \<rparr>
      else if text = ''null'' then ParsedNull
      else ParseFails)"

definition message_example :: "string \<Rightarrow> string" where
  "message_example property = ''Cannot read properties (reading '' @ property @ '')''"

text \<open>
  A call that starts at 1000 ms and whose attempt \<open>k\<close> ends at \<open>1080 + k\<close> ms, with a judge
  that gives the score \<open>80 + k\<close>; and a later call with other readings.
\<close>

definition example_env :: "string option Environment" where
  "example_env =
     \<lparr> generateId = ''call_1000_abc123'', startTime = 1000, startedStamp = ''T1000'',
       finishTime = (\<lambda>k. 1080 + int k), failTime = 1090, logStamp = ''T1080'',
       JSON_stringify = stringify_example,
       judge = (\<lambda>k agentName input output. JudgeText (judge_text (80 + k))),
       parsed = parse_example,
       typeErrorMessage = message_example \<rparr>"



definition default_options :: "string option Options" where
  "default_options =
     \<lparr> maxRetries = None, retryFn = None, outputToString = None, skipQualityCheck = False \<rparr>"


definition no_retry_options :: "string option Options" where
  "no_retry_options =
     \<lparr> maxRetries = Some 0, retryFn = None, outputToString = None, skipQualityCheck = False \<rparr>"

text \<open>Units of work: one that resolves, one that rejects, one that rejects once.\<close>


definition resolves :: "string option \<Rightarrow> nat \<Rightarrow> string option outcome" where
  "resolves res k = Returns res"

definition rejects :: "nat \<Rightarrow> string option outcome" where
  "rejects k = Throws (Error ''boom'')"


text \<open>Two calls of \<open>freedom\<close> that succeed: quality 80 in 80 ms, then quality 81 in 81 ms.\<close>

definition example_clock :: Clock where
  "example_clock = \<lparr> now = 5000, isoString = ''T5000'', eventRandom = ''k3x9'', chainRandom = ''q7w2'' \<rparr>"

definition example_clock2 :: Clock where
  "example_clock2 = \<lparr> now = 6000, isoString = ''T6000'', eventRandom = ''m1n2'', chainRandom = ''r8s9'' \<rparr>"

definition example_event :: "AgentName \<Rightarrow> int \<Rightarrow> PartialEvent" where
  "example_event src d =
     \<lparr> pe_source = src, pe_chainId = ''chain_1'', pe_depth = d, pe_summary = ''done'',
       pe_payload = Opaque ''data'', pe_durationMs = Some 120, pe_triggeredBy = None \<rparr>"

text \<open>Two subscribers: one whose callback throws on every event, one that takes them.\<close>

definition throwing_client :: Client where
  "throwing_client = \<lparr> client_ref = 1, client_call = (\<lambda>event. Throws (Error ''write after end'')) \<rparr>"

definition listening_client :: Client where
  "listening_client = \<lparr> client_ref = 2, client_call = (\<lambda>event. Returns ()) \<rparr>"

definition two_clients :: World where
  "two_clients = subscribe listening_client (subscribe throwing_client (loaded ''boot''))"

definition two_emits :: "string option Op list" where
  "two_emits =
     [Emit example_clock coach_insight (example_event coach 0),
      Emit example_clock2 coach_insight (example_event coach 1)]"

text \<open>A chain with one event at depth 3, and a subscriber.\<close>

definition chain_world :: World where
  "chain_world =
     snd (emit example_clock freedom_updated (example_event freedom 3)
            (subscribe listening_client (loaded ''boot'')))"

text \<open>A session with a task for \<open>simulator\<close> and a task for \<open>coach\<close>.\<close>

definition example_items :: "NewItem list" where
  "example_items =
     [\<lparr> new_task = ''Run what-if simulation'', new_description = ''Project the payoff date'',
        new_assignedAgent = simulator, new_result = None, new_decision = None,
        new_startedAt = None, new_completedAt = None \<rparr>,
      \<lparr> new_task = ''Coach financial habits'', new_description = ''Provide savings tips'',
        new_assignedAgent = coach, new_result = None, new_decision = None,
        new_startedAt = None, new_completedAt = None \<rparr>]"

definition checklist_run :: "string option Op list" where
  "checklist_run = [CreateChecklist example_clock ''session_1'' example_items]"

definition checklist_world :: World where
  "checklist_world = run checklist_run (loaded ''boot'')"

text \<open>Three events: from \<open>simulator\<close>, from \<open>coach\<close>, and from \<open>coach\<close> again.\<close>

definition second_event :: PartialEvent where
  "second_event =
     \<lparr> pe_source = coach, pe_chainId = ''chain_1'', pe_depth = 1, pe_summary = ''again'',
       pe_payload = Opaque ''data'', pe_durationMs = None, pe_triggeredBy = None \<rparr>"

definition three_events :: "(Clock \<times> BusEventType \<times> PartialEvent) list" where
  "three_events =
     [(example_clock, coach_insight, example_event simulator 0),
      (example_clock, coach_insight, example_event coach 0),
      (example_clock2, coach_insight, second_event)]"

text \<open>The same session after the first event from \<open>coach\<close>, and the event that follows.\<close>

definition completed_run :: "string option Op list" where
  "completed_run = checklist_run @ [Emit example_clock coach_insight (example_event coach 0)]"

definition completed_world :: World where
  "completed_world = run completed_run (loaded ''boot'')"

definition later_events :: "(Clock \<times> BusEventType \<times> PartialEvent) list" where
  "later_events = [(example_clock2, coach_insight, second_event)]"

definition example_chain :: ChainSummary where
  "example_chain =
     \<lparr> chainId = ''chain_1'',
       events = [fullEvent example_clock freedom_updated (example_event freedom 3)],
       totalAgents = 1, totalDurationMs = 120, chain_startedAt = ''T5000'',
       chain_completedAt = None, chain_status = running \<rparr>"

text \<open>An event at depth 3, then an attempt to emit at depth 4.\<close>

definition deep_emits :: "string option Op list" where
  "deep_emits =
     [Emit example_clock freedom_updated (example_event freedom 3),
      Emit example_clock2 freedom_updated (example_event freedom 4)]"


text \<open>A call of \<open>watchdog\<close> that fails, between two events on the bus.\<close>

definition other_agents_run :: "string option Op list" where
  "other_agents_run =
     [Emit example_clock vision_extracted (example_event vision 0),
      Orchestrate example_env watchdog ''scan'' rejects no_retry_options,
      Emit example_clock2 watchdog_matched (example_event watchdog 1)]"

section \<open>Basic facts\<close>

text \<open>The list \<open>AGENT_NAMES\<close> names every agent, so every agent has a record at load.\<close>

lemma parse_example_texts:
  "parse_example (judge_text 80)
     = ParsedValue \<lparr> score = 80, reasoning = ''fine'', hasCriticalIssue = False, suggestedFix = None \<rparr>"
  "parse_example (judge_text 81)
     = ParsedValue \<lparr> score = 81, reasoning = ''fine'', hasCriticalIssue = False, suggestedFix = None \<rparr>"
  "parse_example ''null'' = ParsedNull"
  by (simp_all add: parse_example_def judge_text_def quoted_def show_nat.simps digit_def)

lemma every_agent_listed: "a \<in> set AGENT_NAMES"
  by (cases a) (simp_all add: AGENT_NAMES_def)

lemma agents_initial_state: "agents (initial_state started) a = createEmptyHealth a"
  by (cases a) (simp_all add: initial_state_def AGENT_NAMES_def)

lemma initial_state_fields:
  "state_totalCalls (initial_state started) = 0"
  "totalCorrections (initial_state started) = 0"
  "callLog (initial_state started) = []"
  by (simp_all add: initial_state_def)

subsection \<open>The state after \<open>record_call\<close>\<close>

lemma last_push_capped: "0 < cap \<Longrightarrow> last (push_capped cap x xs) = x"
  by (cases xs) (auto simp: push_capped_def Let_def last_tl)

lemma record_call_fields:
  "callLog (record_call a lg st) = push_capped MAX_LOG_SIZE lg (callLog st)"
  "state_totalCalls (record_call a lg st) = state_totalCalls st + 1"
  "totalCorrections (record_call a lg st) = totalCorrections st"
  "upSince (record_call a lg st) = upSince st"
  by (simp_all add: record_call_def updateHealth_def Let_def)

lemma record_call_agents:
  "agents (record_call a lg st)
     = agents (updateHealth a lg (st \<lparr> callLog := push_capped MAX_LOG_SIZE lg (callLog st) \<rparr>))"
  by (simp add: record_call_def updateHealth_def Let_def)

lemma record_call_other: "b \<noteq> a \<Longrightarrow> agents (record_call a lg st) b = agents st b"
  by (simp add: record_call_def updateHealth_def Let_def)

lemma record_call_totalCalls:
  "totalCalls (agents (record_call a lg st) a) = totalCalls (agents st a) + 1"
  by (simp add: record_call_def updateHealth_def Let_def)

lemma record_call_corrections:
  "record_call a lg (st \<lparr> totalCorrections := c \<rparr>) = (record_call a lg st) \<lparr> totalCorrections := c \<rparr>"
  by (simp add: record_call_def updateHealth_def Let_def)

lemma last_callLog_record_call: "last (callLog (record_call a lg st)) = lg"
  by (simp add: record_call_fields last_push_capped MAX_LOG_SIZE_def)

subsection \<open>The retry loop\<close>

lemma attempts_Evaluated:
  assumes "attempt \<le> maxR"
    and "try_attempt env agentName inputSum agentFn opts attempt vars = Evaluated r d out q"
  shows "attempts env agentName inputSum agentFn opts maxR attempt vars st =
     (if hasCriticalIssue q \<and> attempt < maxR \<and> retryFn opts \<noteq> None then
        attempts env agentName inputSum agentFn opts maxR (attempt + 1)
          (vars \<lparr> lv_correctionApplied :=
                     Some (or_else (suggestedFix q) ''Retry with stricter validation''),
                   lv_retryCount := lv_retryCount vars + 1 \<rparr>)
          (st \<lparr> totalCorrections := totalCorrections st + 1 \<rparr>)
      else Returned r (success_log env agentName inputSum vars d out q)
             (record_call agentName (success_log env agentName inputSum vars d out q) st))"
  by (subst attempts.simps) (simp only: assms if_True Attempt.case Let_def success_log_def)

lemma attempts_Caught:
  assumes "attempt \<le> maxR"
    and "try_attempt env agentName inputSum agentFn opts attempt vars = Caught err"
  shows "attempts env agentName inputSum agentFn opts maxR attempt vars st =
     (if attempt < maxR then
        attempts env agentName inputSum agentFn opts maxR (attempt + 1)
          (vars \<lparr> lv_lastError := Some (error_text err),
                   lv_retryCount := lv_retryCount vars + 1,
                   lv_correctionApplied := Some (''Auto-retry after error: '' @ error_text err) \<rparr>)
          (st \<lparr> totalCorrections := totalCorrections st + 1 \<rparr>)
      else attempts env agentName inputSum agentFn opts maxR (attempt + 1)
             (vars \<lparr> lv_lastError := Some (error_text err) \<rparr>) st)"
  by (subst attempts.simps) (simp only: assms if_True Attempt.case Let_def)

lemma attempts_over:
  "\<not> attempt \<le> maxR \<Longrightarrow>
     attempts env agentName inputSum agentFn opts maxR attempt vars st = Exhausted vars st"
  by (subst attempts.simps) simp

lemma attempts_Returned:
  "attempts env a inp fn opts maxR k vars st = Returned res lg st' \<Longrightarrow>
     log_agent lg = a \<and> success lg
     \<and> (\<exists>m. retryCount lg = lv_retryCount vars + m
            \<and> st' = record_call a lg (st \<lparr> totalCorrections := totalCorrections st + m \<rparr>))"
proof (induction env a inp fn opts maxR k vars st rule: attempts.induct)
  case (1 env agentName inputSum agentFn opts maxR attempt vars st)
  show ?case
  proof (cases "attempt \<le> maxR")
    case False
    with "1.prems" show ?thesis by (simp add: attempts_over)
  next
    case le: True
    show ?thesis
    proof (cases "try_attempt env agentName inputSum agentFn opts attempt vars")
      case (Caught err)
      show ?thesis
      proof (cases "attempt < maxR")
        case True
        from "1.prems" le Caught True
        have "attempts env agentName inputSum agentFn opts maxR (attempt + 1)
                (vars \<lparr> lv_lastError := Some (error_text err),
                         lv_retryCount := lv_retryCount vars + 1,
                         lv_correctionApplied := Some (''Auto-retry after error: '' @ error_text err) \<rparr>)
                (st \<lparr> totalCorrections := totalCorrections st + 1 \<rparr>) = Returned res lg st'"
          by (simp add: attempts_Caught [OF le Caught])
        from "1.IH"(1) [OF le Caught refl True this]
        obtain m where "log_agent lg = agentName" "success lg"
          "retryCount lg = lv_retryCount vars + 1 + m"
          "st' = record_call agentName lg (st \<lparr> totalCorrections := totalCorrections st + 1 + m \<rparr>)"
          by auto
        then show ?thesis by (intro conjI exI [of _ "Suc m"]) simp_all
      next
        case False
        from "1.prems" le Caught False
        have "attempts env agentName inputSum agentFn opts maxR (attempt + 1)
                (vars \<lparr> lv_lastError := Some (error_text err) \<rparr>) st = Returned res lg st'"
          by (simp add: attempts_Caught [OF le Caught])
        from "1.IH"(2) [OF le Caught refl False this] show ?thesis by simp
      qed
    next
      case (Evaluated r d out q)
      show ?thesis
      proof (cases "hasCriticalIssue q \<and> attempt < maxR \<and> retryFn opts \<noteq> None")
        case True
        from "1.prems"
        have "attempts env agentName inputSum agentFn opts maxR (attempt + 1)
                  (vars \<lparr> lv_correctionApplied :=
                             Some (or_else (suggestedFix q) ''Retry with stricter validation''),
                           lv_retryCount := lv_retryCount vars + 1 \<rparr>)
                  (st \<lparr> totalCorrections := totalCorrections st + 1 \<rparr>) = Returned res lg st'"
          unfolding attempts_Evaluated [OF le Evaluated] if_P [OF True] .
        from "1.IH"(3) [OF le Evaluated True this]
        obtain m where "log_agent lg = agentName" "success lg"
          "retryCount lg = lv_retryCount vars + 1 + m"
          "st' = record_call agentName lg (st \<lparr> totalCorrections := totalCorrections st + 1 + m \<rparr>)"
          by auto
        then show ?thesis by (intro conjI exI [of _ "Suc m"]) simp_all
      next
        case False
        from "1.prems"
        have "Returned r (success_log env agentName inputSum vars d out q)
                (record_call agentName (success_log env agentName inputSum vars d out q) st)
              = Returned res lg st'"
          unfolding attempts_Evaluated [OF le Evaluated] if_not_P [OF False] .
        then have "res = r" "lg = success_log env agentName inputSum vars d out q"
          "st' = record_call agentName lg st"
          by auto
        then show ?thesis
          by (intro conjI exI [of _ 0]) (simp_all add: success_log_def)
      qed
    qed
  qed
qed

lemma attempts_Exhausted:
  "attempts env a inp fn opts maxR k vars st = Exhausted vars' st' \<Longrightarrow>
     (\<exists>m. lv_retryCount vars' = lv_retryCount vars + m
          \<and> st' = st \<lparr> totalCorrections := totalCorrections st + m \<rparr>)"
proof (induction env a inp fn opts maxR k vars st rule: attempts.induct)
  case (1 env agentName inputSum agentFn opts maxR attempt vars st)
  show ?case
  proof (cases "attempt \<le> maxR")
    case False
    with "1.prems" show ?thesis by (simp add: attempts_over)
  next
    case le: True
    show ?thesis
    proof (cases "try_attempt env agentName inputSum agentFn opts attempt vars")
      case (Caught err)
      show ?thesis
      proof (cases "attempt < maxR")
        case True
        from "1.prems" le Caught True
        have "attempts env agentName inputSum agentFn opts maxR (attempt + 1)
                (vars \<lparr> lv_lastError := Some (error_text err),
                         lv_retryCount := lv_retryCount vars + 1,
                         lv_correctionApplied := Some (''Auto-retry after error: '' @ error_text err) \<rparr>)
                (st \<lparr> totalCorrections := totalCorrections st + 1 \<rparr>) = Exhausted vars' st'"
          by (simp add: attempts_Caught [OF le Caught])
        from "1.IH"(1) [OF le Caught refl True this]
        obtain m where
          "lv_retryCount vars' = lv_retryCount vars + 1 + m"
          "st' = st \<lparr> totalCorrections := totalCorrections st + 1 + m \<rparr>"
          by auto
        then show ?thesis by (intro exI [of _ "Suc m"]) simp
      next
        case False
        from "1.prems" le Caught False
        have "attempts env agentName inputSum agentFn opts maxR (attempt + 1)
                (vars \<lparr> lv_lastError := Some (error_text err) \<rparr>) st = Exhausted vars' st'"
          by (simp add: attempts_Caught [OF le Caught])
        from "1.IH"(2) [OF le Caught refl False this] show ?thesis by simp
      qed
    next
      case (Evaluated r d out q)
      show ?thesis
      proof (cases "hasCriticalIssue q \<and> attempt < maxR \<and> retryFn opts \<noteq> None")
        case True
        from "1.prems"
        have "attempts env agentName inputSum agentFn opts maxR (attempt + 1)
                  (vars \<lparr> lv_correctionApplied :=
                             Some (or_else (suggestedFix q) ''Retry with stricter validation''),
                           lv_retryCount := lv_retryCount vars + 1 \<rparr>)
                  (st \<lparr> totalCorrections := totalCorrections st + 1 \<rparr>) = Exhausted vars' st'"
          unfolding attempts_Evaluated [OF le Evaluated] if_P [OF True] .
        from "1.IH"(3) [OF le Evaluated True this]
        obtain m where
          "lv_retryCount vars' = lv_retryCount vars + 1 + m"
          "st' = st \<lparr> totalCorrections := totalCorrections st + 1 + m \<rparr>"
          by auto
        then show ?thesis by (intro exI [of _ "Suc m"]) simp
      next
        case False
        from "1.prems"
        have "Returned r (success_log env agentName inputSum vars d out q)
                (record_call agentName (success_log env agentName inputSum vars d out q) st)
              = Exhausted vars' st'"
          unfolding attempts_Evaluated [OF le Evaluated] if_not_P [OF False] .
        then show ?thesis by simp
      qed
    qed
  qed
qed


subsection \<open>One call of \<open>orchestrate\<close>\<close>

text \<open>
  Whatever the exit, the state after the call is the state before it with the corrections
  counted and one \<open>record_call\<close> of the log that was written.
\<close>

lemma orchestrate_state:
  fixes env :: "'r Environment" and a :: AgentName and inp :: string
    and fn :: "nat \<Rightarrow> 'r outcome" and opts :: "'r Options" and w :: World
  defines "w' \<equiv> snd (orchestrate env a inp fn opts w)"
    and "lg \<equiv> orchestrate_log env a inp fn opts w"
  shows "log_agent lg = a"
    and "state w' = record_call a lg ((state w) \<lparr> totalCorrections := totalCorrections (state w) + retryCount lg \<rparr>)"
    and "success lg \<longleftrightarrow> (\<exists>r. fst (orchestrate env a inp fn opts w) = Inr (r, lg))"
    and "\<not> success lg \<longleftrightarrow> (\<exists>msg. fst (orchestrate env a inp fn opts w) = Inl msg)"
proof -
  define maxR where "maxR = (case maxRetries opts of Some m \<Rightarrow> m | None \<Rightarrow> 1)"
  define vars0 where "vars0 = \<lparr> lv_lastError = None, lv_retryCount = 0, lv_correctionApplied = None \<rparr>"
  have all: "log_agent lg = a
      \<and> state w' = record_call a lg ((state w) \<lparr> totalCorrections := totalCorrections (state w) + retryCount lg \<rparr>)
      \<and> (success lg \<longleftrightarrow> (\<exists>r. fst (orchestrate env a inp fn opts w) = Inr (r, lg)))
      \<and> (\<not> success lg \<longleftrightarrow> (\<exists>msg. fst (orchestrate env a inp fn opts w) = Inl msg))"
  proof (cases "attempts env a inp fn opts maxR 0 vars0 (state w)")
    case (Returned res lg0 st')
    from attempts_Returned [OF Returned] obtain m where m:
      "log_agent lg0 = a" "success lg0" "retryCount lg0 = m"
      "st' = record_call a lg0 ((state w) \<lparr> totalCorrections := totalCorrections (state w) + m \<rparr>)"
      by (auto simp: vars0_def)
    have res: "orchestrate env a inp fn opts w
        = (Inr (res, lg0), w \<lparr> state := st',
             checklists := sweep (\<lambda>item. assignedAgent item = a \<and> item_status item = Some pending)
                 (no_update \<lparr> upd_status := Some (Some in_progress), upd_progress := Some (Some 30),
                              upd_startedAt := Some (Some (startedStamp env)) \<rparr>)
                 (checklists w) \<rparr>)"
      using Returned by (simp add: orchestrate_def Let_def maxR_def vars0_def)
    have lg: "lg = lg0"
      by (simp add: lg_def orchestrate_log_def res m(4) last_callLog_record_call)
    show ?thesis
      using m by (simp add: lg w'_def res)
  next
    case (Exhausted vars' st')
    from attempts_Exhausted [OF Exhausted] obtain m where m:
      "lv_retryCount vars' = m"
      "st' = (state w) \<lparr> totalCorrections := totalCorrections (state w) + m \<rparr>"
      by (auto simp: vars0_def)
    define lg0 where "lg0 = failure_log env a inp vars' maxR"
    have res: "snd (orchestrate env a inp fn opts w)
        = w \<lparr> state := record_call a lg0 st',
             checklists := sweep (\<lambda>item. assignedAgent item = a \<and> item_status item = Some pending)
                 (no_update \<lparr> upd_status := Some (Some in_progress), upd_progress := Some (Some 30),
                              upd_startedAt := Some (Some (startedStamp env)) \<rparr>)
                 (checklists w) \<rparr>"
      and inl: "\<exists>msg. fst (orchestrate env a inp fn opts w) = Inl msg"
      using Exhausted by (simp_all add: orchestrate_def Let_def maxR_def vars0_def lg0_def)
    have lg: "lg = lg0"
      by (simp add: lg_def orchestrate_log_def res last_callLog_record_call)
    have fields: "log_agent lg0 = a" "\<not> success lg0" "retryCount lg0 = m"
      by (simp_all add: lg0_def failure_log_def m(1))
    from inl have "\<not> (\<exists>r. fst (orchestrate env a inp fn opts w) = Inr (r, lg0))" by auto
    with inl fields show ?thesis
      by (simp add: lg w'_def res m(2))
  qed
  from all show "log_agent lg = a"
    and "state w' = record_call a lg ((state w) \<lparr> totalCorrections := totalCorrections (state w) + retryCount lg \<rparr>)"
    and "success lg \<longleftrightarrow> (\<exists>r. fst (orchestrate env a inp fn opts w) = Inr (r, lg))"
    and "\<not> success lg \<longleftrightarrow> (\<exists>msg. fst (orchestrate env a inp fn opts w) = Inl msg)"
    by blast+
qed

section \<open>Health status thresholds\<close>

text \<open>
  C6. After \<open>updateHealth\<close> the status of the updated record is \<open>failing\<close> exactly when its
  success rate is below 50 or its average quality below 40, \<open>degraded\<close> exactly when it is
  not failing and the rate is below 80 or the quality below 60, and \<open>healthy\<close> otherwise.
  The comparisons are strict, so the values 50, 80, 40 and 60 themselves fall on the
  upper side.
\<close>

theorem updateHealth_status_thresholds:
  fixes agentName :: AgentName and lg :: AgentCallLog and st :: OrchestratorState
  defines "h \<equiv> agents (updateHealth agentName lg st) agentName"
  shows "(status h = failing \<longleftrightarrow> successRate h < 50 \<or> avgQualityScore h < 40)
       \<and> (status h = degraded \<longleftrightarrow>
            \<not> (successRate h < 50 \<or> avgQualityScore h < 40)
            \<and> (successRate h < 80 \<or> avgQualityScore h < 60))
       \<and> (status h = healthy \<longleftrightarrow>
            \<not> (successRate h < 50 \<or> avgQualityScore h < 40)
            \<and> \<not> (successRate h < 80 \<or> avgQualityScore h < 60))"
  unfolding h_def updateHealth_def Let_def by simp

text \<open>
  At the boundaries: a second call that brings the rate to exactly 50 with quality 80 leaves
  the agent \<open>degraded\<close>, not \<open>failing\<close>; a first call with quality exactly 60 (rate 100)
  leaves it \<open>healthy\<close>.
\<close>

theorem updateHealth_status_thresholds_witness:
  "(let st = (initial_state ''boot'')
               \<lparr> agents := (agents (initial_state ''boot''))
                    (coach := (createEmptyHealth coach) \<lparr> totalCalls := 1, avgQualityScore := 80 \<rparr>) \<rparr>;
        lg = \<lparr> log_id = ''call_2'', log_agent = coach, log_timestamp = ''t'', log_durationMs = 10,
               success = True, qualityScore = 80, qualityReasoning = ''ok'', retryCount = 0,
               inputSummary = ''in'', outputSummary = ''out'', correctionApplied = None,
               error = None \<rparr>;
        h = agents (updateHealth coach lg st) coach;
        h' = agents (updateHealth coach (lg \<lparr> qualityScore := 60 \<rparr>) (initial_state ''boot'')) coach
    in successRate h = 50 \<and> avgQualityScore h = 80 \<and> status h = degraded
     \<and> successRate h' = 100 \<and> avgQualityScore h' = 60 \<and> status h' = healthy)"
  using updateHealth_status_thresholds
          [of coach
              "\<lparr> log_id = ''call_2'', log_agent = coach, log_timestamp = ''t'', log_durationMs = 10,
                 success = True, qualityScore = 80, qualityReasoning = ''ok'', retryCount = 0,
                 inputSummary = ''in'', outputSummary = ''out'', correctionApplied = None,
                 error = None \<rparr>"
              "(initial_state ''boot'')
                 \<lparr> agents := (agents (initial_state ''boot''))
                      (coach := (createEmptyHealth coach) \<lparr> totalCalls := 1, avgQualityScore := 80 \<rparr>) \<rparr>"]
  by (simp add: updateHealth_def agents_initial_state initial_state_fields createEmptyHealth_def
        Math_round_def Let_def)

section \<open>Effects of one orchestrated call\<close>

lemma orchestrate_frame:
  "agentBus (snd (orchestrate env a inp fn opts w)) = agentBus w"
  "delivered (snd (orchestrate env a inp fn opts w)) = delivered w"
  "dispatched (snd (orchestrate env a inp fn opts w)) = dispatched w"
  "spawned (snd (orchestrate env a inp fn opts w)) = spawned w"
  by (simp_all add: orchestrate_def Let_def split: LoopExit.splits)








section \<open>Retrying without a retry variant\<close>









section \<open>The success rate\<close>

text \<open>
  C2. \<open>updateHealth\<close> counts the successful logs of the agent in \<open>state.callLog\<close> and adds
  one for a successful \<open>log\<close>; but \<open>orchestrate\<close> has pushed \<open>log\<close> onto \<open>state.callLog\<close>
  before it calls \<open>updateHealth\<close>, so a successful call is counted twice. After the first
  call of an agent, a successful one (\<open>N = 1\<close>, \<open>k = 1\<close>), the success rate is 200 and not
  \<open>round(100 * 1 / 1) = 100\<close>.
\<close>

theorem first_successful_call_success_rate_200:
  "successRate (getAgentHealthMap
     (snd (orchestrate example_env freedom ''plan'' (resolves (Some ''{}'')) default_options
            (loaded ''boot''))) freedom) = 200"
  by (simp add: getAgentHealthMap_def orchestrate_def attempts.simps try_attempt_def
        projectOutput_def resolves_def default_options_def example_env_def stringify_example_def
        attemptQuality_def evaluateQuality_def parse_example_texts
        success_log_def record_call_def
        updateHealth_def push_capped_def MAX_LOG_SIZE_def loaded_def registerBusHandlers_def
        initial_state_fields agents_initial_state createEmptyHealth_def Math_round_def
        substring0_def truthy_def Let_def)

section \<open>What the bus leaves alone\<close>

lemma foldl_keeps:
  assumes "\<And>w x. g (f w x) = g w"
  shows "g (foldl f w xs) = g w"
  by (induction xs arbitrary: w) (simp_all add: assms)

lemma call_client_frame:
  "state (call_client e w c) = state w"
  "checklists (call_client e w c) = checklists w"
  "agentBus (call_client e w c) = agentBus w"
  "dispatched (call_client e w c) = dispatched w"
  "spawned (call_client e w c) = spawned w"
  by (simp_all add: call_client_def split: outcome.splits)

lemma broadcast_frame:
  "state (broadcast e w) = state w"
  "checklists (broadcast e w) = checklists w"
  "agentBus (broadcast e w) = agentBus w"
  "dispatched (broadcast e w) = dispatched w"
  "spawned (broadcast e w) = spawned w"
  unfolding broadcast_def
  by (rule foldl_keeps, simp add: call_client_frame)+

lemma completeChain_frame:
  "state (completeChain k cid w) = state w"
  "checklists (completeChain k cid w) = checklists w"
  "dispatched (completeChain k cid w) = dispatched w"
  "spawned (completeChain k cid w) = spawned w"
  "sseClients (agentBus (completeChain k cid w)) = sseClients (agentBus w)"
  "listeners (agentBus (completeChain k cid w)) = listeners (agentBus w)"
  "eventLog (agentBus (completeChain k cid w)) = eventLog (agentBus w)"
  by (simp_all add: completeChain_def broadcast_frame Let_def split: option.splits)

lemma run_handler_frame:
  "state (run_handler k e w h) = state w"
  "sseClients (agentBus (run_handler k e w h)) = sseClients (agentBus w)"
  "listeners (agentBus (run_handler k e w h)) = listeners (agentBus w)"
  "eventLog (agentBus (run_handler k e w h)) = eventLog (agentBus w)"
  by (cases h; simp add: run_handler_def completeChain_frame Let_def split: option.splits)+

lemma super_emit_frame:
  "state (snd (super_emit k t e w)) = state w"
  "sseClients (agentBus (snd (super_emit k t e w))) = sseClients (agentBus w)"
  "listeners (agentBus (snd (super_emit k t e w))) = listeners (agentBus w)"
  "eventLog (agentBus (snd (super_emit k t e w))) = eventLog (agentBus w)"
  unfolding super_emit_def Let_def snd_conv
  by (rule foldl_keeps, simp add: run_handler_frame)+

lemma emit_frame:
  "state (snd (emit k t p w)) = state w"
  "sseClients (agentBus (snd (emit k t p w))) = sseClients (agentBus w)"
  "listeners (agentBus (snd (emit k t p w))) = listeners (agentBus w)"
  by (simp_all add: emit_def super_emit_frame broadcast_frame trackChain_def Let_def)

lemma step_state:
  "\<not> orchestrates a op \<Longrightarrow> agents (state (step op w)) a = agents (state w) a"
proof (cases op)
  case (Orchestrate env b inp fn opts)
  assume "\<not> orchestrates a op"
  with Orchestrate have "a \<noteq> b" by auto
  then show ?thesis
    by (simp add: Orchestrate orchestrate_state(2) record_call_corrections record_call_other)
qed (simp_all add: emit_frame completeChain_frame subscribe_def unsubscribe_def)

lemma run_other_agents:
  "\<forall>op \<in> set ops. \<not> orchestrates a op \<Longrightarrow> agents (state (run ops w)) a = agents (state w) a"
  by (induction ops arbitrary: w) (simp_all add: step_state)


section \<open>An agent that has not been called\<close>

text \<open>
  C10. From the load of the modules on, and through any calls of the process none of which
  is an \<open>orchestrate\<close> call for the agent, the health record of the agent that
  \<open>getAgentHealthMap\<close> and \<open>getOrchestratorState\<close> expose has \<open>totalCalls = 0\<close>,
  \<open>successRate = 100\<close>, \<open>avgQualityScore = 0\<close>, \<open>lastCallAt = null\<close> and the status
  \<open>healthy\<close>.
\<close>

theorem never_called_agent_health:
  assumes "\<forall>op \<in> set ops. \<not> orchestrates a op"
  shows "totalCalls (getAgentHealthMap (run ops (loaded started)) a) = 0
       \<and> successRate (getAgentHealthMap (run ops (loaded started)) a) = 100
       \<and> avgQualityScore (getAgentHealthMap (run ops (loaded started)) a) = 0
       \<and> lastCallAt (getAgentHealthMap (run ops (loaded started)) a) = None
       \<and> status (getAgentHealthMap (run ops (loaded started)) a) = healthy
       \<and> agents (getOrchestratorState (run ops (loaded started))) a
           = getAgentHealthMap (run ops (loaded started)) a"
proof -
  have "agents (state (loaded started)) a = createEmptyHealth a"
    by (simp add: loaded_def registerBusHandlers_def agents_initial_state)
  with run_other_agents [OF assms, of "loaded started"]
  have "getAgentHealthMap (run ops (loaded started)) a = createEmptyHealth a"
    by (simp add: getAgentHealthMap_def)
  then show ?thesis
    by (simp add: createEmptyHealth_def getOrchestratorState_def getAgentHealthMap_def)
qed

text \<open>After a failed call of \<open>watchdog\<close> between two events, \<open>freedom\<close> is still untouched.\<close>

theorem never_called_agent_health_witness:
  "filter (orchestrates freedom) other_agents_run = []
   \<and> totalCalls (getAgentHealthMap (run other_agents_run (loaded ''boot'')) watchdog) = 1
   \<and> totalCalls (getAgentHealthMap (run other_agents_run (loaded ''boot'')) freedom) = 0
   \<and> successRate (getAgentHealthMap (run other_agents_run (loaded ''boot'')) freedom) = 100
   \<and> avgQualityScore (getAgentHealthMap (run other_agents_run (loaded ''boot'')) freedom) = 0
   \<and> lastCallAt (getAgentHealthMap (run other_agents_run (loaded ''boot'')) freedom) = None
   \<and> status (getAgentHealthMap (run other_agents_run (loaded ''boot'')) freedom) = healthy"
proof -
  have hyp: "\<forall>op \<in> set other_agents_run. \<not> orchestrates freedom op"
    by (simp add: other_agents_run_def)
  have "totalCalls (getAgentHealthMap (run other_agents_run (loaded ''boot'')) watchdog)
        = totalCalls (agents (state (loaded ''boot'')) watchdog) + 1"
    by (simp add: other_agents_run_def getAgentHealthMap_def emit_frame orchestrate_state(2)
          record_call_corrections record_call_totalCalls)
  then have called: "totalCalls (getAgentHealthMap (run other_agents_run (loaded ''boot'')) watchdog) = 1"
    by (simp add: loaded_def registerBusHandlers_def agents_initial_state createEmptyHealth_def)
  have none: "filter (orchestrates freedom) other_agents_run = []"
    by (simp add: other_agents_run_def)
  from never_called_agent_health [OF hyp, of "''boot''"] none called
  show ?thesis by simp
qed

section \<open>The rolling averages\<close>













section \<open>Deliveries and dispatches of the bus\<close>

lemma delivered_foldl_call_client:
  "delivered (foldl (call_client e) w cs) = delivered w @ map (\<lambda>c. (client_ref c, e)) cs"
  by (induction cs arbitrary: w) (simp_all add: call_client_def split: outcome.splits)

lemma delivered_broadcast:
  "delivered (broadcast e w) = delivered w @ map (\<lambda>c. (client_ref c, e)) (sseClients (agentBus w))"
  by (simp add: broadcast_def delivered_foldl_call_client)

lemma completeChain_unknown:
  "map_of (chains (agentBus w)) cid = None \<Longrightarrow> completeChain k cid w = w"
  by (simp add: completeChain_def)

lemma chainSummaryEvent_completed:
  "chainSummaryEvent k cid (ch \<lparr> chain_status := s, chain_completedAt := t \<rparr>) = chainSummaryEvent k cid ch"
  by (simp add: chainSummaryEvent_def)

lemma completeChain_known:
  assumes "map_of (chains (agentBus w)) cid = Some ch"
  shows "delivered (completeChain k cid w)
           = delivered w @ map (\<lambda>c. (client_ref c, chainSummaryEvent k cid ch)) (sseClients (agentBus w))"
    and "map_of (chains (agentBus (completeChain k cid w))) cid
           = Some (ch \<lparr> chain_status := chain_completed, chain_completedAt := Some (isoString k) \<rparr>)"
  using assms
  by (simp_all add: completeChain_def Let_def delivered_broadcast broadcast_frame
        chainSummaryEvent_completed update_conv')

lemma dispatched_run_handler: "dispatched (run_handler k e w h) = dispatched w @ [(h, e)]"
  by (cases h) (simp_all add: run_handler_def completeChain_frame Let_def split: option.splits)

lemma dispatched_foldl_run_handler:
  "dispatched (foldl (run_handler k e) w hs) = dispatched w @ map (\<lambda>h. (h, e)) hs"
  by (induction hs arbitrary: w) (simp_all add: dispatched_run_handler)

lemma dispatched_emit:
  "dispatched (snd (emit k t p w))
     = dispatched w @ (if pe_depth p > 3 then []
                       else map (\<lambda>h. (h, fullEvent k t p))
                              (map snd (filter (\<lambda>(t', h). t' = t) (listeners (agentBus w)))))"
  by (simp add: emit_def MAX_CHAIN_DEPTH_def super_emit_def Let_def dispatched_foldl_run_handler
        broadcast_frame trackChain_def)

lemma dispatched_step:
  "\<forall>x \<in> set (dispatched w). depth (snd x) \<le> 3 \<Longrightarrow> \<forall>x \<in> set (dispatched (step op w)). depth (snd x) \<le> 3"
  by (cases op)
     (auto simp: orchestrate_frame dispatched_emit fullEvent_def completeChain_frame
        subscribe_def unsubscribe_def)

lemma dispatched_run:
  "\<forall>x \<in> set (dispatched w). depth (snd x) \<le> 3 \<Longrightarrow> \<forall>x \<in> set (dispatched (run ops w)). depth (snd x) \<le> 3"
proof (induction ops arbitrary: w)
  case Nil
  then show ?case by simp
next
  case (Cons op ops)
  from Cons.IH [OF dispatched_step [OF Cons.prems]] show ?case by simp
qed

lemma delivered_run_handler: "\<exists>rest. delivered (run_handler k e w h) = delivered w @ rest"
  by (cases h; cases "map_of (chains (agentBus w)) (ev_chainId e)")
     (simp_all add: run_handler_def completeChain_known(1) completeChain_unknown Let_def split: option.splits)

lemma delivered_foldl_run_handler:
  "\<exists>rest. delivered (foldl (run_handler k e) w hs) = delivered w @ rest"
proof (induction hs arbitrary: w)
  case Nil
  show ?case by simp
next
  case (Cons h hs)
  from delivered_run_handler [of k e w h] obtain r1 where
    r1: "delivered (run_handler k e w h) = delivered w @ r1" by blast
  from Cons.IH [of "run_handler k e w h"] obtain r2 where
    "delivered (foldl (run_handler k e) (run_handler k e w h) hs) = delivered (run_handler k e w h) @ r2"
    by blast
  with r1 show ?case by simp
qed


lemma listeners_loaded:
  "listeners (agentBus (loaded started))
     = [(vision_extracted, OnVisionExtracted), (watchdog_matched, OnWatchdogMatched),
        (debate_verdict, OnDebateVerdict), (freedom_updated, OnFreedomUpdated),
        (vision_extracted, OnAnyEvent), (watchdog_matched, OnAnyEvent),
        (debate_verdict, OnAnyEvent), (letter_generated, OnAnyEvent),
        (call_script_generated, OnAnyEvent), (freedom_updated, OnAnyEvent),
        (coach_insight, OnAnyEvent)]"
  by (simp add: loaded_def registerBusHandlers_def)

lemma loaded_fields:
  "checklists (loaded started) = []"
  "delivered (loaded started) = []"
  "dispatched (loaded started) = []"
  "spawned (loaded started) = []"
  "sseClients (agentBus (loaded started)) = []"
  "chains (agentBus (loaded started)) = []"
  "eventLog (agentBus (loaded started)) = []"
  by (simp_all add: loaded_def registerBusHandlers_def)

section \<open>The depth limit\<close>

text \<open>
  C1. A call of \<open>emit\<close> with an event of depth greater than 3 returns \<open>false\<close> and leaves
  the whole process as it was: nothing is appended to the event log, no chain summary is
  created or changed, no subscriber and no listener is called. So, from the load on and
  through any calls of the process, no event of depth greater than 3 is ever dispatched to
  a listener, the downstream triggers among them.
\<close>

theorem emit_beyond_max_depth_rejected:
  "(pe_depth event > 3 \<longrightarrow> emit clock type event w = (False, w))
   \<and> (\<forall>x \<in> set (dispatched (run ops (loaded started))). depth (snd x) \<le> 3)"
proof
  show "pe_depth event > 3 \<longrightarrow> emit clock type event w = (False, w)"
    by (simp add: emit_def MAX_CHAIN_DEPTH_def)
  have "dispatched (loaded started) = []"
    by (simp add: loaded_def registerBusHandlers_def)
  then have "\<forall>x \<in> set (dispatched (loaded started)). depth (snd x) \<le> 3" by simp
  then show "\<forall>x \<in> set (dispatched (run ops (loaded started))). depth (snd x) \<le> 3"
    by (rule dispatched_run)
qed


text \<open>
  An event at depth 3 is dispatched (to the trigger and to the checklist observer); the
  attempt at depth 4 after it is rejected and dispatches nothing.
\<close>

theorem emit_beyond_max_depth_rejected_witness:
  "pe_depth (example_event freedom 4) > 3
   \<and> emit example_clock2 freedom_updated (example_event freedom 4) (loaded ''boot'')
       = (False, loaded ''boot'')
   \<and> map depth (map snd (dispatched (run deep_emits (loaded ''boot'')))) = [3, 3]"
proof -
  have "map depth (map snd (dispatched (run deep_emits (loaded ''boot'')))) = [3, 3]"
    by (simp add: deep_emits_def dispatched_emit emit_frame listeners_loaded loaded_fields
          example_event_def fullEvent_def)
  with emit_beyond_max_depth_rejected
         [of "example_event freedom 4" example_clock2 freedom_updated "loaded ''boot''"
             deep_emits "''boot''"]
  show ?thesis by (simp add: example_event_def)
qed

section \<open>Subscribers that throw\<close>

text \<open>
  C5 (as amended). A subscriber callback that throws during delivery has its exception
  swallowed by \<open>emit\<close> and stays in the subscriber set: no call of \<open>emit\<close> removes a
  subscriber (a callback leaves the set only through its unsubscribe function). Its failure
  affects neither the delivery to the other subscribers, each of which is called with the
  event in the order of subscription, nor the emitting call, whose result depends only on
  the depth and on there being a listener for the type.
\<close>

theorem emit_keeps_throwing_subscribers:
  "sseClients (agentBus (snd (emit clock type event w))) = sseClients (agentBus w)
   \<and> (pe_depth event \<le> 3 \<longrightarrow>
        (\<exists>rest. delivered (snd (emit clock type event w))
                  = delivered w
                    @ map (\<lambda>c. (client_ref c, fullEvent clock type event)) (sseClients (agentBus w))
                    @ rest))
   \<and> fst (emit clock type event w)
       = (pe_depth event \<le> 3 \<and> type \<in> set (map fst (listeners (agentBus w))))"
proof (intro conjI impI)
  show "sseClients (agentBus (snd (emit clock type event w))) = sseClients (agentBus w)"
    by (rule emit_frame)
next
  assume d: "pe_depth event \<le> 3"
  define w1 where "w1 = broadcast (fullEvent clock type event)
       (w \<lparr> agentBus := trackChain (fullEvent clock type event)
               ((agentBus w) \<lparr> eventLog := push_capped MAX_EVENT_LOG (fullEvent clock type event)
                                             (eventLog (agentBus w)) \<rparr>) \<rparr>)"
  have w1: "delivered w1 = delivered w
      @ map (\<lambda>c. (client_ref c, fullEvent clock type event)) (sseClients (agentBus w))"
    by (simp add: w1_def delivered_broadcast trackChain_def Let_def)
  from delivered_foldl_run_handler
  obtain rest where "delivered (foldl (run_handler clock (fullEvent clock type event)) w1
         (map snd (filter (\<lambda>(t, h). t = type) (listeners (agentBus w1)))))
       = delivered w1 @ rest"
    by blast
  with d w1 show "\<exists>rest. delivered (snd (emit clock type event w))
                  = delivered w
                    @ map (\<lambda>c. (client_ref c, fullEvent clock type event)) (sseClients (agentBus w))
                    @ rest"
    by (simp add: emit_def MAX_CHAIN_DEPTH_def super_emit_def Let_def w1_def)
next
  have "(map snd (filter (\<lambda>(t, h). t = type) ls) \<noteq> []) = (type \<in> set (map fst ls))" for ls :: "(BusEventType \<times> Handler) list"
    by (induction ls) auto
  then show "fst (emit clock type event w)
       = (pe_depth event \<le> 3 \<and> type \<in> set (map fst (listeners (agentBus w))))"
    by (simp add: emit_def MAX_CHAIN_DEPTH_def super_emit_def Let_def broadcast_frame trackChain_def)
qed


lemma two_clients_fields:
  "sseClients (agentBus two_clients) = [throwing_client, listening_client]"
  "listeners (agentBus two_clients) = listeners (agentBus (loaded ''boot''))"
  "delivered two_clients = []"
  "checklists two_clients = []"
  by (simp_all add: two_clients_def subscribe_def loaded_fields throwing_client_def
        listening_client_def)

lemma delivered_observer: "delivered (run_handler k e w OnAnyEvent) = delivered w"
  by (simp add: run_handler_def Let_def split: option.splits)

lemma delivered_coach_insight:
  "listeners (agentBus w) = listeners (agentBus (loaded started)) \<Longrightarrow>
   delivered (snd (emit k coach_insight (example_event coach d) w))
     = delivered w @ (if d > 3 then []
                      else map (\<lambda>c. (client_ref c, fullEvent k coach_insight (example_event coach d)))
                             (sseClients (agentBus w)))"
  by (simp add: emit_def MAX_CHAIN_DEPTH_def super_emit_def Let_def listeners_loaded
        broadcast_frame trackChain_def delivered_observer delivered_broadcast example_event_def)

theorem emit_keeps_throwing_subscribers_witness:
  "pe_depth (example_event coach 0) \<le> 3
   \<and> sseClients (agentBus (snd (emit example_clock coach_insight (example_event coach 0) two_clients)))
       = [throwing_client, listening_client]
   \<and> take 2 (delivered (snd (emit example_clock coach_insight (example_event coach 0) two_clients)))
       = [(1, fullEvent example_clock coach_insight (example_event coach 0)),
          (2, fullEvent example_clock coach_insight (example_event coach 0))]
   \<and> fst (emit example_clock coach_insight (example_event coach 0) two_clients)"
proof -
  note inst = emit_keeps_throwing_subscribers
                [of example_clock coach_insight "example_event coach 0" two_clients]
  have d: "pe_depth (example_event coach 0) \<le> 3"
    by (simp add: example_event_def)
  from inst have "sseClients (agentBus (snd (emit example_clock coach_insight (example_event coach 0) two_clients)))
       = sseClients (agentBus two_clients)"
    by blast
  then have clients: "sseClients (agentBus (snd (emit example_clock coach_insight (example_event coach 0) two_clients)))
       = [throwing_client, listening_client]"
    by (simp add: two_clients_fields)
  from inst d obtain rest where
    "delivered (snd (emit example_clock coach_insight (example_event coach 0) two_clients))
       = delivered two_clients
         @ map (\<lambda>c. (client_ref c, fullEvent example_clock coach_insight (example_event coach 0)))
             (sseClients (agentBus two_clients))
         @ rest"
    by blast
  then have dels: "take 2 (delivered (snd (emit example_clock coach_insight (example_event coach 0) two_clients)))
       = [(1, fullEvent example_clock coach_insight (example_event coach 0)),
          (2, fullEvent example_clock coach_insight (example_event coach 0))]"
    by (simp add: two_clients_fields throwing_client_def listening_client_def)
  from inst d have "fst (emit example_clock coach_insight (example_event coach 0) two_clients)"
    by (simp add: two_clients_fields listeners_loaded)
  with d clients dels show ?thesis by simp
qed

text \<open>
  The subscriber whose callback throws on the first event is still in the set after it,
  and is called again with the second event.
\<close>

theorem throwing_subscriber_not_removed_counterexample:
  "client_call throwing_client (fullEvent example_clock coach_insight (example_event coach 0))
     = Throws (Error ''write after end'')
   \<and> sseClients (agentBus (snd (emit example_clock coach_insight (example_event coach 0) two_clients)))
       = [throwing_client, listening_client]
   \<and> map fst (delivered (run two_emits two_clients)) = [1, 2, 1, 2]"
proof -
  have "map fst (delivered (run two_emits two_clients)) = [1, 2, 1, 2]"
    by (simp add: two_emits_def delivered_coach_insight emit_frame two_clients_fields
          throwing_client_def listening_client_def)
  then show ?thesis
    by (simp add: emit_frame two_clients_fields) (simp add: throwing_client_def)
qed

section \<open>Completing a chain twice\<close>

text \<open>
  C4 (as amended). \<open>completeChain\<close> is not idempotent on what subscribers see: every call
  on a known chain id delivers one summary event of depth \<open>-1\<close> to every current
  subscriber, so two calls deliver two summary events to each (with the same statistics;
  their ids and timestamps are those of the two calls). The chain stays \<open>completed\<close>, with
  the completion time of the second call.
\<close>

theorem completeChain_twice_delivers_twice:
  assumes "map_of (chains (agentBus w)) cid = Some ch"
  shows "delivered (completeChain k2 cid (completeChain k1 cid w))
           = delivered w
             @ map (\<lambda>c. (client_ref c, chainSummaryEvent k1 cid ch)) (sseClients (agentBus w))
             @ map (\<lambda>c. (client_ref c, chainSummaryEvent k2 cid ch)) (sseClients (agentBus w))
       \<and> depth (chainSummaryEvent k1 cid ch) = - 1
       \<and> depth (chainSummaryEvent k2 cid ch) = - 1
       \<and> map_of (chains (agentBus (completeChain k2 cid (completeChain k1 cid w)))) cid
           = Some (ch \<lparr> chain_status := chain_completed, chain_completedAt := Some (isoString k2) \<rparr>)"
proof -
  note first = completeChain_known [OF assms, of k1]
  note second = completeChain_known [OF first(2), of k2]
  show ?thesis
    by (simp add: first second completeChain_frame chainSummaryEvent_completed)
       (simp add: chainSummaryEvent_def)
qed


lemma chain_world_fields:
  "sseClients (agentBus chain_world) = [listening_client]"
  "delivered chain_world = [(2, fullEvent example_clock freedom_updated (example_event freedom 3))]"
  "map_of (chains (agentBus chain_world)) ''chain_1'' = Some example_chain"
  by (simp_all add: chain_world_def emit_def MAX_CHAIN_DEPTH_def super_emit_def Let_def
        subscribe_def loaded_fields listeners_loaded broadcast_frame delivered_broadcast
        run_handler_def sweep_def getChecklistSessions_def AGENT_TO_CHECKLIST_def
        trackChain_def example_chain_def example_event_def fullEvent_def example_clock_def
        listening_client_def)

theorem completeChain_twice_delivers_twice_witness:
  "map_of (chains (agentBus chain_world)) ''chain_1'' = Some example_chain
   \<and> delivered (completeChain example_clock2 ''chain_1''
                  (completeChain example_clock2 ''chain_1'' chain_world))
       = [(2, fullEvent example_clock freedom_updated (example_event freedom 3)),
          (2, chainSummaryEvent example_clock2 ''chain_1'' example_chain),
          (2, chainSummaryEvent example_clock2 ''chain_1'' example_chain)]
   \<and> depth (chainSummaryEvent example_clock2 ''chain_1'' example_chain) = - 1"
  using completeChain_twice_delivers_twice
          [of chain_world "''chain_1''" example_chain example_clock2 example_clock2]
  by (simp add: chain_world_fields listening_client_def)

text \<open>
  The subscriber of the example receives the event of the chain and then, from two calls
  of \<open>completeChain\<close>, two summary events.
\<close>

lemma delivered_chain_twice:
  "delivered (completeChain example_clock2 ''chain_1''
                  (completeChain example_clock2 ''chain_1'' chain_world))
       = [(2, fullEvent example_clock freedom_updated (example_event freedom 3)),
          (2, chainSummaryEvent example_clock2 ''chain_1'' example_chain),
          (2, chainSummaryEvent example_clock2 ''chain_1'' example_chain)]"
proof -
  note first = completeChain_known [OF chain_world_fields(3), of example_clock2]
  note second = completeChain_known [OF first(2), of example_clock2]
  show ?thesis
    by (simp add: first second completeChain_frame chainSummaryEvent_completed chain_world_fields
          listening_client_def)
qed

theorem completeChain_twice_counterexample:
  "map fst (delivered (completeChain example_clock2 ''chain_1''
                         (completeChain example_clock2 ''chain_1'' chain_world))) = [2, 2, 2]
   \<and> map depth (map snd (delivered (completeChain example_clock2 ''chain_1''
                         (completeChain example_clock2 ''chain_1'' chain_world)))) = [3, - 1, - 1]"
  by (simp add: delivered_chain_twice chainSummaryEvent_def fullEvent_def example_event_def)

section \<open>The loops over the checklists\<close>

lemma item_id_assign [simp]: "item_id (assign u i) = item_id i"
  by (simp add: assign_def)

lemma assignedAgent_assign [simp]: "assignedAgent (assign u i) = assignedAgent i"
  by (simp add: assign_def)

lemma assign_first_nth:
  "distinct (map item_id items) \<Longrightarrow> j < length items \<Longrightarrow>
   assign_first (item_id (items ! j)) u items = items[j := assign u (items ! j)]"
proof (induction items arbitrary: j)
  case Nil
  then show ?case by simp
next
  case (Cons i items)
  show ?case
  proof (cases j)
    case 0
    then show ?thesis by simp
  next
    case (Suc j')
    with Cons.prems have "item_id (items ! j') \<in> set (map item_id items)" by simp
    with Cons.prems have "item_id i \<noteq> item_id (items ! j')" by auto
    with Cons Suc show ?thesis by simp
  qed
qed

lemma find_id_nth:
  assumes "j < length items"
  shows "find (\<lambda>i. item_id i = item_id (items ! j)) items \<noteq> None"
proof -
  from assms have "items ! j \<in> set items" by simp
  then show ?thesis by (auto simp: find_None_iff)
qed

lemma updateChecklistItem_nth:
  assumes "map_of cl sid = Some items" and "distinct (map item_id items)" and "j < length items"
  shows "snd (updateChecklistItem sid (item_id (items ! j)) u cl)
           = AList.update sid (items[j := assign u (items ! j)]) cl"
proof -
  from find_id_nth [OF assms(3)] obtain x where
    "find (\<lambda>i. item_id i = item_id (items ! j)) items = Some x" by blast
  then show ?thesis
    using assms by (simp add: updateChecklistItem_def assign_first_nth)
qed

lemma item_id_visit [simp]: "item_id (visit cond u i) = item_id i"
  by (simp add: visit_def)

lemma map_item_id_update [simp]:
  "j < length items \<Longrightarrow> map item_id (items[j := visit cond u (items ! j)]) = map item_id items"
  by (simp add: map_update list_update_same_conv)

lemma sweep_items_updates:
  assumes "map_of cl sid = Some items" and "distinct (map item_id items)"
    and "\<forall>j \<in> set js. j < length items"
  shows "sweep_items cond u sid js cl
           = AList.update sid (foldl (\<lambda>its j. its[j := visit cond u (its ! j)]) items js) cl"
  using assms
proof (induction js arbitrary: cl items)
  case Nil
  then show ?case by (simp add: update_triv)
next
  case (Cons j js)
  define items' where "items' = items[j := visit cond u (items ! j)]"
  define cl' where "cl' = (if cond (items ! j)
                            then snd (updateChecklistItem sid (item_id (items ! j)) u cl) else cl)"
  from Cons.prems have j: "j < length items" by simp
  have cl': "cl' = AList.update sid items' cl"
    using Cons.prems(1,2) j
    by (simp add: cl'_def items'_def visit_def updateChecklistItem_nth update_triv)
  have 1: "map_of cl' sid = Some items'" by (simp add: cl' update_conv')
  have 2: "distinct (map item_id items')" using Cons.prems(2) j by (simp add: items'_def)
  have 3: "\<forall>j \<in> set js. j < length items'" using Cons.prems(3) by (simp add: items'_def)
  have "sweep_items cond u sid (j # js) cl = sweep_items cond u sid js cl'"
    using Cons.prems(1) by (simp add: cl'_def getChecklist_def Let_def)
  also have "\<dots> = AList.update sid (foldl (\<lambda>its j. its[j := visit cond u (its ! j)]) items' js) cl'"
    by (rule Cons.IH [OF 1 2 3])
  finally show ?case by (simp add: cl' items'_def)
qed

lemma foldl_visit_upto:
  "n \<le> length items \<Longrightarrow>
   foldl (\<lambda>its j. its[j := f (its ! j)]) items [0 ..< n] = map f (take n items) @ drop n items"
proof (induction n)
  case 0
  show ?case by simp
next
  case (Suc n)
  then have n: "n < length items" by simp
  have "(map f (take n items) @ drop n items)[n := f ((map f (take n items) @ drop n items) ! n)]
        = map f (take (Suc n) items) @ drop (Suc n) items"
    using n
    by (simp add: take_Suc_conv_app_nth nth_append list_update_append Cons_nth_drop_Suc [symmetric])
  with Suc show ?case by simp
qed

lemma sweep_items_map:
  assumes "map_of cl sid = Some items" and "distinct (map item_id items)"
  shows "sweep_items cond u sid [0 ..< length items] cl = AList.update sid (map (visit cond u) items) cl"
  using sweep_items_updates [OF assms, of "[0 ..< length items]" cond u]
  by (simp add: foldl_visit_upto)

lemma getChecklist_update:
  "getChecklist sid (AList.update sid' v cl) = (if sid = sid' then v else getChecklist sid cl)"
  by (simp add: getChecklist_def update_conv')

lemma keys_update: "sid \<in> set (map fst cl) \<Longrightarrow> map fst (AList.update sid v cl) = map fst cl"
  by (simp add: update_keys)

lemma map_of_getChecklist:
  "sid \<in> set (map fst cl) \<Longrightarrow> map_of cl sid = Some (getChecklist sid cl)"
  by (cases "map_of cl sid") (auto simp: getChecklist_def map_of_eq_None_iff)

lemma well_keyed_iff:
  "well_keyed cl \<longleftrightarrow>
     distinct (map fst cl) \<and> (\<forall>sid. distinct (map item_id (getChecklist sid cl)))"
proof
  assume wk: "well_keyed cl"
  have "distinct (map item_id (getChecklist sid cl))" for sid
  proof (cases "map_of cl sid")
    case None
    then show ?thesis by (simp add: getChecklist_def)
  next
    case (Some items)
    then have "(sid, items) \<in> set cl" by (rule map_of_SomeD)
    then have "items \<in> set (map snd cl)" by force
    with wk have "distinct (map item_id items)" unfolding well_keyed_def by blast
    with Some show ?thesis by (simp add: getChecklist_def)
  qed
  with wk show "distinct (map fst cl) \<and> (\<forall>sid. distinct (map item_id (getChecklist sid cl)))"
    by (simp add: well_keyed_def)
next
  assume r: "distinct (map fst cl) \<and> (\<forall>sid. distinct (map item_id (getChecklist sid cl)))"
  have "distinct (map item_id items)" if "items \<in> set (map snd cl)" for items
  proof -
    from that obtain sid where "(sid, items) \<in> set cl" by auto
    with r have "map_of cl sid = Some items" by simp
    then have "getChecklist sid cl = items" by (simp add: getChecklist_def)
    with r show ?thesis by metis
  qed
  with r show "well_keyed cl" by (simp add: well_keyed_def)
qed

lemma sweep_sessions_get:
  assumes "distinct sids" and "set sids \<subseteq> set (map fst cl)"
    and "\<forall>s. distinct (map item_id (getChecklist s cl))"
  shows "getChecklist sid (sweep_sessions cond u sids cl)
           = (if sid \<in> set sids then map (visit cond u) (getChecklist sid cl) else getChecklist sid cl)
       \<and> map fst (sweep_sessions cond u sids cl) = map fst cl"
  using assms
proof (induction sids arbitrary: cl)
  case Nil
  show ?case by simp
next
  case (Cons s sids)
  define cl' where "cl' = sweep_items cond u s [0 ..< length (getChecklist s cl)] cl"
  from Cons.prems have s: "s \<in> set (map fst cl)" by simp
  have cl': "cl' = AList.update s (map (visit cond u) (getChecklist s cl)) cl"
    unfolding cl'_def using Cons.prems(3)
    by (intro sweep_items_map [OF map_of_getChecklist [OF s]]) simp
  have keys: "map fst cl' = map fst cl"
    by (simp add: cl' keys_update [OF s])
  have get: "getChecklist x cl' = (if x = s then map (visit cond u) (getChecklist s cl) else getChecklist x cl)" for x
    by (simp add: cl' getChecklist_update)
  have 1: "distinct sids" using Cons.prems(1) by simp
  have 2: "set sids \<subseteq> set (map fst cl')" using Cons.prems(2) by (simp add: keys)
  have 3: "\<forall>x. distinct (map item_id (getChecklist x cl'))"
    using Cons.prems(3) by (simp add: get comp_def)
  from Cons.IH [OF 1 2 3] Cons.prems(1) show ?case
    by (auto simp: cl'_def [symmetric] get keys)
qed

lemma sweep_get:
  assumes "well_keyed cl"
  shows "getChecklist sid (sweep cond u cl) = map (visit cond u) (getChecklist sid cl)"
    and "well_keyed (sweep cond u cl)"
proof -
  from assms have d: "distinct (map fst cl)" and i: "\<forall>s. distinct (map item_id (getChecklist s cl))"
    by (simp_all add: well_keyed_iff)
  note r = sweep_sessions_get [OF d subset_refl i, where cond = cond and u = u]
  have none: "getChecklist x cl = []" if "x \<notin> set (map fst cl)" for x
    using that by (simp add: getChecklist_def map_of_eq_None_iff [symmetric])
  show "getChecklist sid (sweep cond u cl) = map (visit cond u) (getChecklist sid cl)"
    using r [where sid = sid] none [of sid] by (cases "sid \<in> set (map fst cl)") (simp_all add: sweep_def getChecklistSessions_def)
  have "getChecklist x (sweep cond u cl) = map (visit cond u) (getChecklist x cl)" for x
    using r [where sid = x] none [of x] by (cases "x \<in> set (map fst cl)") (simp_all add: sweep_def getChecklistSessions_def)
  then have "\<forall>x. distinct (map item_id (getChecklist x (sweep cond u cl)))"
    using i by (simp add: comp_def)
  moreover have "distinct (map fst (sweep cond u cl))"
    using r [where sid = sid] d by (simp add: sweep_def getChecklistSessions_def)
  ultimately show "well_keyed (sweep cond u cl)"
    by (simp add: well_keyed_iff)
qed

section \<open>The checklist observer\<close>

lemma emit_accepts:
  "fst (emit k t p w) = (pe_depth p \<le> 3 \<and> t \<in> set (map fst (listeners (agentBus w))))"
proof -
  have "(map snd (filter (\<lambda>(t', h). t' = t) ls) \<noteq> []) = (t \<in> set (map fst ls))"
    for ls :: "(BusEventType \<times> Handler) list"
    by (induction ls) auto
  then show ?thesis
    by (simp add: emit_def MAX_CHAIN_DEPTH_def super_emit_def Let_def broadcast_frame trackChain_def)
qed

lemma checklists_trigger:
  "h \<noteq> OnAnyEvent \<Longrightarrow> checklists (run_handler k e w h) = checklists w"
  by (cases h) (simp_all add: run_handler_def completeChain_frame Let_def)

lemma checklists_observer:
  "checklists (run_handler k e w OnAnyEvent)
     = (case AGENT_TO_CHECKLIST (source e) of
          None \<Rightarrow> checklists w
        | Some agentName \<Rightarrow>
            sweep (\<lambda>item. assignedAgent item = agentName \<and> item_status item \<noteq> Some completed)
              (no_update \<lparr> upd_status := Some (Some completed), upd_progress := Some (Some 100),
                           upd_result := Some (Some (summary e)),
                           upd_completedAt := Some (Some (isoString k)) \<rparr>)
              (checklists w))"
  by (simp add: run_handler_def Let_def split: option.splits)

lemma fullEvent_fields:
  "source (fullEvent k t p) = pe_source p"
  "summary (fullEvent k t p) = pe_summary p"
  "depth (fullEvent k t p) = pe_depth p"
  "ev_chainId (fullEvent k t p) = pe_chainId p"
  by (simp_all add: fullEvent_def)

lemma checklists_emit:
  assumes "listeners (agentBus w) = listeners (agentBus (loaded started))"
  shows "checklists (snd (emit k t p w))
     = (if pe_depth p \<le> 3 then
          (case AGENT_TO_CHECKLIST (pe_source p) of
             None \<Rightarrow> checklists w
           | Some agentName \<Rightarrow>
               sweep (\<lambda>item. assignedAgent item = agentName \<and> item_status item \<noteq> Some completed)
                 (no_update \<lparr> upd_status := Some (Some completed), upd_progress := Some (Some 100),
                              upd_result := Some (Some (pe_summary p)),
                              upd_completedAt := Some (Some (isoString k)) \<rparr>)
                 (checklists w))
        else checklists w)"
  using assms
  by (cases t)
     (simp_all add: emit_def MAX_CHAIN_DEPTH_def super_emit_def Let_def listeners_loaded
        broadcast_frame trackChain_def checklists_observer checklists_trigger fullEvent_fields
        split: option.splits)

lemma visit_observer:
  "visit (\<lambda>item. assignedAgent item = pe_source p \<and> item_status item \<noteq> Some completed)
     (no_update \<lparr> upd_status := Some (Some completed), upd_progress := Some (Some 100),
                  upd_result := Some (Some (pe_summary p)),
                  upd_completedAt := Some (Some (isoString k)) \<rparr>) = observed k p"
  by (rule ext) (simp add: visit_def observed_def completed_by_def assign_def no_update_def)

lemma table_same: "AGENT_TO_CHECKLIST src = Some a \<Longrightarrow> a = src"
  by (simp add: AGENT_TO_CHECKLIST_def split: if_splits)

lemma emit_items:
  assumes wk: "well_keyed (checklists w)"
    and ls: "listeners (agentBus w) = listeners (agentBus (loaded started))"
  shows "getChecklist sid (checklists (snd (emit k t p w)))
           = (if pe_depth p \<le> 3 \<and> AGENT_TO_CHECKLIST (pe_source p) \<noteq> None
              then map (observed k p) (getChecklist sid (checklists w))
              else getChecklist sid (checklists w))"
    and "well_keyed (checklists (snd (emit k t p w)))"
proof -
  show "getChecklist sid (checklists (snd (emit k t p w)))
           = (if pe_depth p \<le> 3 \<and> AGENT_TO_CHECKLIST (pe_source p) \<noteq> None
              then map (observed k p) (getChecklist sid (checklists w))
              else getChecklist sid (checklists w))"
  proof (cases "AGENT_TO_CHECKLIST (pe_source p)")
    case None
    then show ?thesis by (simp add: checklists_emit [OF ls])
  next
    case (Some a)
    with table_same have "a = pe_source p" by simp
    with Some show ?thesis
      by (simp add: checklists_emit [OF ls] sweep_get(1) [OF wk] visit_observer)
  qed
  show "well_keyed (checklists (snd (emit k t p w)))"
    by (cases "AGENT_TO_CHECKLIST (pe_source p)")
       (simp_all add: checklists_emit [OF ls] wk sweep_get(2) [OF wk])
qed

lemma observed_completed: "item_status item = Some completed \<Longrightarrow> observed k p item = item"
  by (simp add: observed_def)

lemma observed_other: "assignedAgent item \<noteq> pe_source p \<Longrightarrow> observed k p item = item"
  by (simp add: observed_def)

lemma observed_open:
  "assignedAgent item = pe_source p \<Longrightarrow> item_status item \<noteq> Some completed \<Longrightarrow>
   observed k p item = completed_by k p item"
  by (simp add: observed_def)

lemma emit_item:
  assumes wk: "well_keyed (checklists w)"
    and ls: "listeners (agentBus w) = listeners (agentBus (loaded started))"
    and i: "i < length (getChecklist sid (checklists w))"
  shows "getChecklist sid (checklists (snd (emit k t p w))) ! i
           = (if pe_depth p \<le> 3 \<and> AGENT_TO_CHECKLIST (pe_source p) \<noteq> None
              then observed k p (getChecklist sid (checklists w) ! i)
              else getChecklist sid (checklists w) ! i)"
    and "length (getChecklist sid (checklists (snd (emit k t p w))))
           = length (getChecklist sid (checklists w))"
  using i by (auto simp: emit_items(1) [OF wk ls])

lemma completed_item_stays:
  assumes "well_keyed (checklists w)"
    and "listeners (agentBus w) = listeners (agentBus (loaded started))"
    and "i < length (getChecklist sid (checklists w))"
    and "item_status (getChecklist sid (checklists w) ! i) = Some completed"
  shows "getChecklist sid (checklists (emit_all es w)) ! i = getChecklist sid (checklists w) ! i"
  using assms
proof (induction es arbitrary: w)
  case Nil
  show ?case by simp
next
  case (Cons e es)
  obtain k t p where e: "e = (k, t, p)" by (cases e)
  define w' where "w' = snd (emit k t p w)"
  have same: "getChecklist sid (checklists w') ! i = getChecklist sid (checklists w) ! i"
    unfolding w'_def
    by (simp add: emit_item(1) [OF Cons.prems(1,2,3)] observed_completed [OF Cons.prems(4)])
  have 1: "well_keyed (checklists w')"
    unfolding w'_def by (rule emit_items(2) [OF Cons.prems(1,2)])
  have 2: "listeners (agentBus w') = listeners (agentBus (loaded started))"
    unfolding w'_def by (simp add: emit_frame Cons.prems(2))
  have 3: "i < length (getChecklist sid (checklists w'))"
    unfolding w'_def by (simp add: emit_item(2) [OF Cons.prems(1,2,3)] Cons.prems(3))
  have 4: "item_status (getChecklist sid (checklists w') ! i) = Some completed"
    by (simp add: same Cons.prems(4))
  from Cons.IH [OF 1 2 3 4] show ?case
    by (simp add: e w'_def [symmetric] same)
qed

lemma observer_completes_once:
  assumes "well_keyed (checklists w)"
    and "listeners (agentBus w) = listeners (agentBus (loaded started))"
    and "i < length (getChecklist sid (checklists w))"
    and "assignedAgent (getChecklist sid (checklists w) ! i) = X"
    and "AGENT_TO_CHECKLIST X = Some X"
    and "item_status (getChecklist sid (checklists w) ! i) \<noteq> Some completed"
  shows "getChecklist sid (checklists (emit_all es w)) ! i
           = (case first_from X es of
                None \<Rightarrow> getChecklist sid (checklists w) ! i
              | Some (clock, event) \<Rightarrow> completed_by clock event (getChecklist sid (checklists w) ! i))"
  using assms
proof (induction es arbitrary: w)
  case Nil
  show ?case by simp
next
  case (Cons e es)
  obtain k t p where e: "e = (k, t, p)" by (cases e)
  define w' where "w' = snd (emit k t p w)"
  define item where "item = getChecklist sid (checklists w) ! i"
  have 1: "well_keyed (checklists w')"
    unfolding w'_def by (rule emit_items(2) [OF Cons.prems(1,2)])
  have 2: "listeners (agentBus w') = listeners (agentBus (loaded started))"
    unfolding w'_def by (simp add: emit_frame Cons.prems(2))
  have 3: "i < length (getChecklist sid (checklists w'))"
    unfolding w'_def by (simp add: emit_item(2) [OF Cons.prems(1,2,3)] Cons.prems(3))
  note step = emit_item(1) [OF Cons.prems(1,2,3), of k t p, folded w'_def item_def]
  show ?case
  proof (cases "pe_depth p \<le> 3 \<and> pe_source p = X")
    case True
    with Cons.prems(4,5,6) have item': "getChecklist sid (checklists w') ! i = completed_by k p item"
      by (simp add: step observed_open item_def)
    then have "item_status (getChecklist sid (checklists w') ! i) = Some completed"
      by (simp add: completed_by_def)
    from completed_item_stays [OF 1 2 3 this, of es]
    have "getChecklist sid (checklists (emit_all es w')) ! i = completed_by k p item"
      by (simp only: item')
    moreover have "first_from X (e # es) = Some (k, p)"
      using True by (simp add: e MAX_CHAIN_DEPTH_def)
    moreover have "emit_all (e # es) w = emit_all es w'"
      by (simp add: e w'_def)
    ultimately show ?thesis
      unfolding item_def by simp
  next
    case False
    have same: "getChecklist sid (checklists w') ! i = item"
    proof (cases "pe_depth p \<le> 3 \<and> AGENT_TO_CHECKLIST (pe_source p) \<noteq> None")
      case True
      with False have "assignedAgent item \<noteq> pe_source p"
        using Cons.prems(4) by (auto simp: item_def)
      with True show ?thesis by (simp add: step observed_other)
    next
      case False
      then show ?thesis using step by auto
    qed
    have 4: "assignedAgent (getChecklist sid (checklists w') ! i) = X"
      using Cons.prems(4) by (simp add: same item_def)
    have 6: "item_status (getChecklist sid (checklists w') ! i) \<noteq> Some completed"
      using Cons.prems(6) by (simp add: same item_def)
    from Cons.IH [OF 1 2 3 4 Cons.prems(5) 6]
    have "getChecklist sid (checklists (emit_all es w')) ! i
            = (case first_from X es of
                 None \<Rightarrow> item
               | Some (clock, event) \<Rightarrow> completed_by clock event item)"
      by (simp only: same)
    moreover have "first_from X (e # es) = first_from X es"
      using False by (auto simp: e MAX_CHAIN_DEPTH_def)
    moreover have "emit_all (e # es) w = emit_all es w'"
      by (simp add: e w'_def)
    ultimately show ?thesis
      unfolding item_def by simp
  qed
qed

section \<open>Checklists of the running process\<close>

lemma show_nat_nonempty: "show_nat n \<noteq> []" "[] \<noteq> show_nat n"
  by (subst show_nat.simps, simp)+

lemma digit_inj: "a < 10 \<Longrightarrow> b < 10 \<Longrightarrow> digit a = digit b \<Longrightarrow> a = b"
proof -
  assume a: "a < 10" and b: "b < 10" and eq: "digit a = digit b"
  have d: "distinct ''0123456789''" by simp
  from a b have "a < length ''0123456789''" "b < length ''0123456789''" by simp_all
  with d eq show "a = b" unfolding digit_def by (simp only: nth_eq_iff_index_eq)
qed

lemma show_nat_inj: "show_nat n = show_nat m \<Longrightarrow> n = m"
proof (induction n arbitrary: m rule: show_nat.induct)
  case (1 n)
  show ?case
  proof (cases "n < 10")
    case n: True
    show ?thesis
    proof (cases "m < 10")
      case True
      with n "1.prems" show ?thesis
        by (simp add: show_nat.simps [of n] show_nat.simps [of m] digit_inj)
    next
      case False
      with n "1.prems" show ?thesis
        by (simp add: show_nat.simps [of n] show_nat.simps [of m] show_nat_nonempty)
    qed
  next
    case n: False
    show ?thesis
    proof (cases "m < 10")
      case True
      with n "1.prems" show ?thesis
        by (simp add: show_nat.simps [of n] show_nat.simps [of m] show_nat_nonempty)
    next
      case False
      with n "1.prems" have "show_nat (n div 10) = show_nat (m div 10)"
        and "digit (n mod 10) = digit (m mod 10)"
        by (simp_all add: show_nat.simps [of n] show_nat.simps [of m])
      with "1.IH" [OF n] have "n div 10 = m div 10" and "n mod 10 = m mod 10"
        by (simp_all add: digit_inj)
      then show ?thesis by (metis div_mult_mod_eq)
    qed
  qed
qed

lemma created_ids:
  "map item_id (fst (createChecklist clock sid items cl))
     = map (\<lambda>i. ''task_'' @ show_int (now clock) @ ''_'' @ show_nat i) [0 ..< length items]"
proof -
  have "map (\<lambda>x. g (fst x)) xs = map g (map fst xs)" for g :: "nat \<Rightarrow> string" and xs :: "(nat \<times> NewItem) list"
    by (simp add: comp_def)
  from this [of _ "enumerate 0 items"] show ?thesis
    by (simp add: createChecklist_def Let_def comp_def case_prod_unfold)
qed

lemma created_ids_distinct:
  "distinct (map item_id (fst (createChecklist clock sid items cl)))"
proof -
  have "inj_on (\<lambda>i. ''task_'' @ show_int (now clock) @ ''_'' @ show_nat i) (set [0 ..< length items])"
    by (rule inj_onI) (simp add: show_nat_inj)
  then show ?thesis
    unfolding created_ids by (simp only: distinct_map distinct_upt simp_thms)
qed

lemma orchestrate_checklists:
  "checklists (snd (orchestrate env a inp fn opts w))
     = sweep (\<lambda>item. assignedAgent item = a \<and> item_status item = Some pending)
         (no_update \<lparr> upd_status := Some (Some in_progress), upd_progress := Some (Some 30),
                      upd_startedAt := Some (Some (startedStamp env)) \<rparr>)
         (checklists w)"
  by (simp add: orchestrate_def Let_def split: LoopExit.splits)

lemma well_keyed_update:
  assumes "well_keyed cl" and "distinct (map item_id items)"
  shows "well_keyed (AList.update sid items cl)"
  using assms by (simp add: well_keyed_iff distinct_update getChecklist_update)

lemma ids_assign_first: "map item_id (assign_first itemId u items) = map item_id items"
  by (induction items) simp_all

lemma well_keyed_updateChecklistItem:
  assumes "well_keyed cl"
  shows "well_keyed (snd (updateChecklistItem sid itemId u cl))"
proof (cases "map_of cl sid")
  case None
  with assms show ?thesis by (simp add: updateChecklistItem_def)
next
  case (Some items)
  with assms have "distinct (map item_id items)"
    using well_keyed_iff [of cl] by (auto simp: getChecklist_def dest: spec [of _ sid])
  then have "well_keyed (AList.update sid (assign_first itemId u items) cl)"
    by (intro well_keyed_update [OF assms]) (simp add: ids_assign_first)
  with Some assms show ?thesis
    by (simp add: updateChecklistItem_def split: option.splits)
qed

lemma step_invariants:
  assumes "well_keyed (checklists w)"
    and "listeners (agentBus w) = listeners (agentBus (loaded started))"
  shows "well_keyed (checklists (step op w))"
    and "listeners (agentBus (step op w)) = listeners (agentBus (loaded started))"
proof -
  show "well_keyed (checklists (step op w))"
  proof (cases op)
    case (Orchestrate env a inp fn opts)
    then show ?thesis by (simp add: orchestrate_checklists sweep_get(2) [OF assms(1)])
  next
    case (Emit k t p)
    then show ?thesis by (simp add: emit_items(2) [OF assms])
  next
    case (CompleteChain k cid)
    then show ?thesis by (simp add: completeChain_frame assms(1))
  next
    case (Subscribe c)
    then show ?thesis by (simp add: subscribe_def assms(1))
  next
    case (Unsubscribe c)
    then show ?thesis by (simp add: unsubscribe_def assms(1))
  next
    case (CreateChecklist k sid items)
    have "snd (createChecklist k sid items (checklists w))
            = AList.update sid (fst (createChecklist k sid items (checklists w))) (checklists w)"
      by (simp add: createChecklist_def Let_def)
    with CreateChecklist show ?thesis
      by (simp add: well_keyed_update [OF assms(1) created_ids_distinct])
  next
    case (UpdateChecklistItem sid itemId u)
    then show ?thesis by (simp add: well_keyed_updateChecklistItem [OF assms(1)])
  next
    case (PatchChecklistItem k sid itemId body)
    then show ?thesis
      by (simp add: patchChecklistItem_def well_keyed_updateChecklistItem [OF assms(1)])
  qed
  show "listeners (agentBus (step op w)) = listeners (agentBus (loaded started))"
    by (cases op)
       (simp_all add: orchestrate_frame emit_frame completeChain_frame subscribe_def
          unsubscribe_def assms(2))
qed

lemma run_invariants:
  assumes "well_keyed (checklists w)"
    and "listeners (agentBus w) = listeners (agentBus (loaded started))"
  shows "well_keyed (checklists (run ops w))
       \<and> listeners (agentBus (run ops w)) = listeners (agentBus (loaded started))"
  using assms
proof (induction ops arbitrary: w)
  case Nil
  then show ?case by simp
next
  case (Cons op ops)
  from Cons.IH [OF step_invariants [OF Cons.prems]] show ?case by simp
qed

lemma reachable_invariants:
  "well_keyed (checklists (run ops (loaded started)))"
  "listeners (agentBus (run ops (loaded started))) = listeners (agentBus (loaded started))"
proof -
  have "well_keyed (checklists (loaded started))"
    by (simp add: loaded_def registerBusHandlers_def well_keyed_def)
  from run_invariants [OF this refl, of ops]
  show "well_keyed (checklists (run ops (loaded started)))"
    and "listeners (agentBus (run ops (loaded started))) = listeners (agentBus (loaded started))"
    by simp_all
qed

lemma table_keys:
  "X \<in> {vision, watchdog, debate, letter, call_script, freedom, coach} \<Longrightarrow>
   AGENT_TO_CHECKLIST X = Some X"
  by (auto simp: AGENT_TO_CHECKLIST_def)

lemma table_misses:
  "X \<in> {simulator, auditor, future_self} \<Longrightarrow> AGENT_TO_CHECKLIST X = None"
  by (auto simp: AGENT_TO_CHECKLIST_def)

lemma untabled_item_stays:
  assumes "well_keyed (checklists w)"
    and "listeners (agentBus w) = listeners (agentBus (loaded started))"
    and "i < length (getChecklist sid (checklists w))"
    and "AGENT_TO_CHECKLIST (assignedAgent (getChecklist sid (checklists w) ! i)) = None"
  shows "getChecklist sid (checklists (emit_all es w)) ! i = getChecklist sid (checklists w) ! i"
  using assms
proof (induction es arbitrary: w)
  case Nil
  show ?case by simp
next
  case (Cons e es)
  obtain k t p where e: "e = (k, t, p)" by (cases e)
  define w' where "w' = snd (emit k t p w)"
  have "observed k p (getChecklist sid (checklists w) ! i) = getChecklist sid (checklists w) ! i"
    if "AGENT_TO_CHECKLIST (pe_source p) \<noteq> None"
    using that Cons.prems(4) by (auto simp: observed_def)
  then have same: "getChecklist sid (checklists w') ! i = getChecklist sid (checklists w) ! i"
    unfolding w'_def by (simp add: emit_item(1) [OF Cons.prems(1,2,3)])
  have 1: "well_keyed (checklists w')"
    unfolding w'_def by (rule emit_items(2) [OF Cons.prems(1,2)])
  have 2: "listeners (agentBus w') = listeners (agentBus (loaded started))"
    unfolding w'_def by (simp add: emit_frame Cons.prems(2))
  have 3: "i < length (getChecklist sid (checklists w'))"
    unfolding w'_def by (simp add: emit_item(2) [OF Cons.prems(1,2,3)] Cons.prems(3))
  have 4: "AGENT_TO_CHECKLIST (assignedAgent (getChecklist sid (checklists w') ! i)) = None"
    by (simp add: same Cons.prems(4))
  from Cons.IH [OF 1 2 3 4] show ?case
    by (simp add: e w'_def [symmetric] same)
qed

text \<open>
  C9 (as amended). In the process as it is after any calls, take a checklist item and any
  sequence of calls of \<open>emit\<close>. If the item is assigned to one of \<open>vision\<close>, \<open>watchdog\<close>,
  \<open>debate\<close>, \<open>letter\<close>, \<open>call-script\<close>, \<open>freedom\<close>, \<open>coach\<close> and is not completed, it
  stays as it is until the first event of depth at most 3 whose source is that agent; that
  event makes it \<open>completed\<close> with progress 100, the event's summary as result and the time
  of the event as completion time; and no later event, from that agent or from another
  source, changes it again. If the item is assigned to \<open>simulator\<close>, \<open>auditor\<close> or
  \<open>future-self\<close>, no event changes it, whatever its source. An item that is completed is
  not changed either.
\<close>

theorem checklist_item_completed_once:
  fixes ops :: "'r Op list" and started sid :: string and i :: nat
    and es :: "(Clock \<times> BusEventType \<times> PartialEvent) list"
  defines "w \<equiv> run ops (loaded started)"
  defines "item \<equiv> getChecklist sid (checklists w) ! i"
  defines "item' \<equiv> getChecklist sid (checklists (emit_all es w)) ! i"
  assumes "i < length (getChecklist sid (checklists w))"
  shows "(assignedAgent item \<in> {vision, watchdog, debate, letter, call_script, freedom, coach}
          \<and> item_status item \<noteq> Some completed \<longrightarrow>
            (case first_from (assignedAgent item) es of
               None \<Rightarrow> item' = item
             | Some (clock, event) \<Rightarrow>
                 item' = item \<lparr> item_status := Some completed, progress := Some 100,
                                result := Some (pe_summary event),
                                completedAt := Some (isoString clock) \<rparr>))
       \<and> (assignedAgent item \<in> {simulator, auditor, future_self} \<longrightarrow> item' = item)
       \<and> (item_status item = Some completed \<longrightarrow> item' = item)"
proof (intro conjI impI)
  note inv = reachable_invariants [of ops started, folded w_def]
  {
    assume a: "assignedAgent item \<in> {vision, watchdog, debate, letter, call_script, freedom, coach}
               \<and> item_status item \<noteq> Some completed"
    then have tab: "AGENT_TO_CHECKLIST (assignedAgent item) = Some (assignedAgent item)"
      by (simp only: table_keys)
    from a have opn: "item_status (getChecklist sid (checklists w) ! i) \<noteq> Some completed"
      by (simp add: item_def)
    from observer_completes_once [OF inv assms(4) refl tab [unfolded item_def] opn, of es]
    show "case first_from (assignedAgent item) es of
               None \<Rightarrow> item' = item
             | Some (clock, event) \<Rightarrow>
                 item' = item \<lparr> item_status := Some completed, progress := Some 100,
                                result := Some (pe_summary event),
                                completedAt := Some (isoString clock) \<rparr>"
      unfolding item'_def item_def
      by (simp add: completed_by_def split: option.splits prod.splits)
  }
  {
    assume "assignedAgent item \<in> {simulator, auditor, future_self}"
    then have "AGENT_TO_CHECKLIST (assignedAgent (getChecklist sid (checklists w) ! i)) = None"
      unfolding item_def by (rule table_misses)
    from untabled_item_stays [OF inv assms(4) this, of es] show "item' = item"
      by (simp add: item'_def item_def)
  }
  {
    assume "item_status item = Some completed"
    then have "item_status (getChecklist sid (checklists w) ! i) = Some completed"
      by (simp add: item_def)
    from completed_item_stays [OF inv assms(4) this, of es] show "item' = item"
      by (simp add: item'_def item_def)
  }
qed

lemma checklist_world_items:
  "map assignedAgent (getChecklist ''session_1'' (checklists checklist_world)) = [simulator, coach]"
  "map item_status (getChecklist ''session_1'' (checklists checklist_world)) = [Some pending, Some pending]"
  by (simp_all add: checklist_world_def checklist_run_def createChecklist_def example_items_def
        loaded_fields getChecklist_def Let_def)

lemma nth_of_map2:
  "map f xs = [a, b] \<Longrightarrow> f (xs ! 0) = a \<and> f (xs ! 1) = b \<and> length xs = 2"
  by (cases xs; cases "tl xs") auto

lemma completed_world_emit:
  "completed_world = emit_all [(example_clock, coach_insight, example_event coach 0)] checklist_world"
  by (simp add: completed_world_def completed_run_def checklist_world_def checklist_run_def)

text \<open>
  A session with a task for \<open>simulator\<close> and a task for \<open>coach\<close>; then an event from
  \<open>simulator\<close>, an event from \<open>coach\<close> with the summary \<open>done\<close>, and a second event from
  \<open>coach\<close>. The task of \<open>coach\<close> is completed by the first event from \<open>coach\<close> and keeps
  its result; the task of \<open>simulator\<close> stays as it was; and once the task of \<open>coach\<close> is
  completed, the second event from \<open>coach\<close> leaves it alone.
\<close>

theorem checklist_item_completed_once_witness:
  "1 < length (getChecklist ''session_1'' (checklists checklist_world))
   \<and> assignedAgent (getChecklist ''session_1'' (checklists checklist_world) ! 1) = coach
   \<and> item_status (getChecklist ''session_1'' (checklists checklist_world) ! 1) = Some pending
   \<and> first_from coach three_events = Some (example_clock, example_event coach 0)
   \<and> getChecklist ''session_1'' (checklists (emit_all three_events checklist_world)) ! 1
       = (getChecklist ''session_1'' (checklists checklist_world) ! 1)
           \<lparr> item_status := Some completed, progress := Some 100, result := Some ''done'',
             completedAt := Some ''T5000'' \<rparr>
   \<and> assignedAgent (getChecklist ''session_1'' (checklists checklist_world) ! 0) = simulator
   \<and> getChecklist ''session_1'' (checklists (emit_all three_events checklist_world)) ! 0
       = getChecklist ''session_1'' (checklists checklist_world) ! 0
   \<and> 1 < length (getChecklist ''session_1'' (checklists completed_world))
   \<and> item_status (getChecklist ''session_1'' (checklists completed_world) ! 1) = Some completed
   \<and> getChecklist ''session_1'' (checklists (emit_all later_events completed_world)) ! 1
       = getChecklist ''session_1'' (checklists completed_world) ! 1"
proof -
  note items = nth_of_map2 [OF checklist_world_items(1)] nth_of_map2 [OF checklist_world_items(2)]
  have len: "1 < length (getChecklist ''session_1'' (checklists checklist_world))"
    and len0: "0 < length (getChecklist ''session_1'' (checklists checklist_world))"
    and agent: "assignedAgent (getChecklist ''session_1'' (checklists checklist_world) ! 1) = coach"
    and pend: "item_status (getChecklist ''session_1'' (checklists checklist_world) ! 1) = Some pending"
    and agent0: "assignedAgent (getChecklist ''session_1'' (checklists checklist_world) ! 0) = simulator"
    using items by simp_all
  have first: "first_from coach three_events = Some (example_clock, example_event coach 0)"
    by (simp add: three_events_def example_event_def)
  define es1 where "es1 = [(example_clock, coach_insight, example_event coach 0)]"
  have first1: "first_from coach es1 = Some (example_clock, example_event coach 0)"
    by (simp add: es1_def example_event_def)
  have world1: "completed_world = emit_all es1 checklist_world"
    by (simp add: es1_def completed_world_emit)
  have texts: "pe_summary (example_event coach 0) = ''done''" "isoString example_clock = ''T5000''"
    by (simp_all add: example_event_def example_clock_def)
  from checklist_item_completed_once
         [of 1 "''session_1''" checklist_run "''boot''" three_events,
          folded checklist_world_def, OF len]
  have compl: "getChecklist ''session_1'' (checklists (emit_all three_events checklist_world)) ! 1
       = (getChecklist ''session_1'' (checklists checklist_world) ! 1)
           \<lparr> item_status := Some completed, progress := Some 100, result := Some ''done'',
             completedAt := Some ''T5000'' \<rparr>"
    using agent pend first texts by simp
  from checklist_item_completed_once
         [of 0 "''session_1''" checklist_run "''boot''" three_events,
          folded checklist_world_def, OF len0]
  have stays: "getChecklist ''session_1'' (checklists (emit_all three_events checklist_world)) ! 0
       = getChecklist ''session_1'' (checklists checklist_world) ! 0"
    using agent0 by simp
  from checklist_item_completed_once
         [of 1 "''session_1''" checklist_run "''boot''" es1,
          folded checklist_world_def, OF len]
  have item1: "getChecklist ''session_1'' (checklists completed_world) ! 1
       = (getChecklist ''session_1'' (checklists checklist_world) ! 1)
           \<lparr> item_status := Some completed, progress := Some 100, result := Some ''done'',
             completedAt := Some ''T5000'' \<rparr>"
    using agent pend first1 texts by (simp add: world1)
  then have done1: "item_status (getChecklist ''session_1'' (checklists completed_world) ! 1) = Some completed"
    by simp
  have "length (getChecklist ''session_1'' (checklists completed_world))
          = length (getChecklist ''session_1'' (checklists checklist_world))"
    unfolding completed_world_emit checklist_world_def
    by (simp add: emit_items(1) [OF reachable_invariants])
  with len have len1: "1 < length (getChecklist ''session_1'' (checklists completed_world))"
    by simp
  from checklist_item_completed_once
         [of 1 "''session_1''" completed_run "''boot''" later_events,
          folded completed_world_def, OF len1]
  have kept: "getChecklist ''session_1'' (checklists (emit_all later_events completed_world)) ! 1
       = getChecklist ''session_1'' (checklists completed_world) ! 1"
    using done1 by simp
  from len agent pend first compl agent0 stays len1 done1 kept show ?thesis
    by simp
qed

text \<open>
  An item assigned to \<open>simulator\<close> is not completed by an accepted event whose source is
  \<open>simulator\<close>: the source is not a key of the observer's table.
\<close>

theorem checklist_item_outside_table_counterexample:
  "assignedAgent (getChecklist ''session_1'' (checklists checklist_world) ! 0) = simulator
   \<and> pe_source (example_event simulator 0) = simulator
   \<and> fst (emit example_clock coach_insight (example_event simulator 0) checklist_world)
   \<and> item_status (getChecklist ''session_1''
        (checklists (snd (emit example_clock coach_insight (example_event simulator 0)
                            checklist_world))) ! 0) = Some pending"
proof -
  note items = nth_of_map2 [OF checklist_world_items(1)] nth_of_map2 [OF checklist_world_items(2)]
  have ls: "listeners (agentBus checklist_world) = listeners (agentBus (loaded ''boot''))"
    unfolding checklist_world_def by (rule reachable_invariants)
  have "checklists (snd (emit example_clock coach_insight (example_event simulator 0) checklist_world))
          = checklists checklist_world"
    by (simp add: checklists_emit [OF ls] AGENT_TO_CHECKLIST_def example_event_def)
  moreover have "fst (emit example_clock coach_insight (example_event simulator 0) checklist_world)"
    by (simp add: emit_accepts ls listeners_loaded example_event_def)
  ultimately show ?thesis
    using items by (simp add: example_event_def)
qed

end
